theory Spec2Isabelle
  imports Complex_Main "HOL-Library.Sublist"
begin

section \<open>The CS-1000 driver (cs1000.py)\<close>

text \<open>
  A shallow embedding of the class \<open>CS1000\<close>. The object is a record that every method
  takes and returns; a method either returns, raises a Python exception (the object
  keeps the assignments done before the raise), or blocks forever in a read. The
  \<open>logging\<close> calls only format text that is already there and are left out.
\<close>

subsection \<open>Exceptions and outcomes\<close>

text \<open>
  The exceptions the code can raise: \<open>AttributeError\<close> when \<open>self.com\<close> is \<open>None\<close>
  (\<open>None.write\<close>), \<open>SerialException\<close> from the serial port (the transport failure),
  \<open>UnicodeDecodeError\<close> from \<open>decode('utf-8')\<close>, and \<open>IndexError\<close> (\<open>ans[i]\<close>) and
  \<open>ValueError\<close> (\<open>float(...)\<close>) from parsing a reply.
\<close>

datatype exn = AttributeError | SerialException | UnicodeDecodeError | IndexError | ValueError

datatype 'a outcome = Return 'a | Raise exn | Hang

subsection \<open>The serial port\<close>

text \<open>
  What \<open>serial.Serial\<close> does is outside the repository; the port is simulated by a
  script. Each \<open>readline\<close> takes the next entry of \<open>inbox\<close>: a line of text, bytes that
  are not UTF-8, or a failure of the port; with no entry left the read blocks (the port
  is opened without a timeout). Each \<open>write\<close> takes the next entry of \<open>wscript\<close>
  (\<open>True\<close>: accepted, \<open>False\<close>: the port fails); with no entry left the write is accepted.
  \<open>serial.Serial()\<close> without a port name is a port that is not open, where both raise.
\<close>

datatype reply = Line string | Garbled | Broken

record serial =
  is_open :: bool
  wscript :: "bool list"
  inbox :: "reply list"

definition Serial_unopened :: serial where
  "Serial_unopened = \<lparr>is_open = False, wscript = [], inbox = []\<rparr>"

subsection \<open>The driver object\<close>

text \<open>
  The values of the \<open>results\<close> dict: a float, a string, or the two-column array of the
  spectrum (rows of wavelength and intensity). The type \<open>'f\<close> stands for Python's
  floats; the builtin \<open>float\<close> is a parameter \<open>pf\<close> of the model, with \<open>None\<close> where it
  raises \<open>ValueError\<close>.
\<close>

datatype 'f val = Float 'f | Str string | Array "(nat \<times> 'f) list"

text \<open>
  \<open>wire\<close> is a history variable, not a field of the Python object: it lists every
  completed write (with the value of \<open>self.remote\<close> at that moment) and every completed
  \<open>readline\<close>, in order.
\<close>

datatype event = Sent bool string | Received

record 'f cs1000 =
  results :: "string \<rightharpoonup> 'f val"
  com :: "serial option"
  remote :: bool
  wire :: "event list"

type_synonym ('a, 'f) action = "'f cs1000 \<Rightarrow> 'a outcome \<times> 'f cs1000"

definition ret :: "'a \<Rightarrow> ('a, 'f) action" where
  "ret x = (\<lambda>s. (Return x, s))"

definition raise :: "exn \<Rightarrow> ('a, 'f) action" where
  "raise e = (\<lambda>s. (Raise e, s))"

text \<open>Sequencing: the second statement runs only if the first returned.\<close>

definition bnd :: "('a, 'f) action \<Rightarrow> ('a \<Rightarrow> ('b, 'f) action) \<Rightarrow> ('b, 'f) action" where
  "bnd m f = (\<lambda>s. case m s of
      (Return x, s') \<Rightarrow> f x s'
    | (Raise e, s') \<Rightarrow> (Raise e, s')
    | (Hang, s') \<Rightarrow> (Hang, s'))"

fun block :: "(unit, 'f) action list \<Rightarrow> (unit, 'f) action" where
  "block [] = ret ()"
| "block (a # as) = bnd a (\<lambda>_. block as)"

definition discard :: "('a, 'f) action \<Rightarrow> (unit, 'f) action" where
  "discard m = bnd m (\<lambda>_. ret ())"

subsection \<open>Primitive statements\<close>

text \<open>\<open>self.com.write(b)\<close>\<close>

definition com_write :: "string \<Rightarrow> (unit, 'f) action" where
  "com_write b = (\<lambda>s. case com s of
      None \<Rightarrow> (Raise AttributeError, s)
    | Some p \<Rightarrow>
        if \<not> is_open p then (Raise SerialException, s)
        else (case wscript p of
            [] \<Rightarrow> (Return (), s\<lparr>wire := wire s @ [Sent (remote s) b]\<rparr>)
          | True # w \<Rightarrow> (Return (), s\<lparr>com := Some (p\<lparr>wscript := w\<rparr>),
                                       wire := wire s @ [Sent (remote s) b]\<rparr>)
          | False # w \<Rightarrow> (Raise SerialException, s\<lparr>com := Some (p\<lparr>wscript := w\<rparr>)\<rparr>)))"

text \<open>\<open>self.com.readline().decode('utf-8')\<close>\<close>

definition com_readline :: "(string, 'f) action" where
  "com_readline = (\<lambda>s. case com s of
      None \<Rightarrow> (Raise AttributeError, s)
    | Some p \<Rightarrow>
        if \<not> is_open p then (Raise SerialException, s)
        else (case inbox p of
            [] \<Rightarrow> (Hang, s)
          | Line l # r \<Rightarrow> (Return l, s\<lparr>com := Some (p\<lparr>inbox := r\<rparr>),
                                        wire := wire s @ [Received]\<rparr>)
          | Garbled # r \<Rightarrow> (Raise UnicodeDecodeError, s\<lparr>com := Some (p\<lparr>inbox := r\<rparr>),
                                                       wire := wire s @ [Received]\<rparr>)
          | Broken # r \<Rightarrow> (Raise SerialException, s\<lparr>com := Some (p\<lparr>inbox := r\<rparr>)\<rparr>)))"

text \<open>\<open>self.results[k] = v\<close>\<close>

definition setitem :: "string \<Rightarrow> 'f val \<Rightarrow> (unit, 'f) action" where
  "setitem k v = (\<lambda>s. (Return (), s\<lparr>results := (results s)(k \<mapsto> v)\<rparr>))"

text \<open>\<open>ans[i]\<close> for an index \<open>i \<ge> 0\<close>\<close>

definition getitem :: "string list \<Rightarrow> nat \<Rightarrow> (string, 'f) action" where
  "getitem ans i = (if i < length ans then ret (ans ! i) else raise IndexError)"

text \<open>\<open>float(a)\<close>\<close>

definition py_float :: "(string \<Rightarrow> 'f option) \<Rightarrow> string \<Rightarrow> ('f, 'f) action" where
  "py_float pf a = (case pf a of None \<Rightarrow> raise ValueError | Some x \<Rightarrow> ret x)"

subsection \<open>Strings\<close>

text \<open>\<open>ans.split(',')\<close>: cut at every comma; the result is never empty.\<close>

fun split_comma :: "string \<Rightarrow> string list" where
  "split_comma [] = [[]]"
| "split_comma (c # cs) =
     (if c = CHR '','' then [] # split_comma cs
      else (case split_comma cs of
          [] \<Rightarrow> [[c]]
        | w # ws \<Rightarrow> (c # w) # ws))"

text \<open>
  \<open>a.strip()\<close> on text in the ASCII range: the characters Python's \<open>str\<close> takes for
  whitespace are tab to carriage return (9 to 13), the separators 28 to 31, and space.
\<close>

definition is_space :: "char \<Rightarrow> bool" where
  "is_space c \<longleftrightarrow> (let n = of_char c :: nat in (9 \<le> n \<and> n \<le> 13) \<or> (28 \<le> n \<and> n \<le> 32))"

definition strip :: "string \<Rightarrow> string" where
  "strip a = rev (dropWhile is_space (rev (dropWhile is_space a)))"

subsection \<open>The methods\<close>

definition init :: "'f cs1000" where
  "init = \<lparr>results = Map.empty, com = None, remote = False, wire = []\<rparr>"

definition get_connected :: "'f cs1000 \<Rightarrow> bool" where
  "get_connected s \<longleftrightarrow> \<not> (com s = None)"

definition get_remote :: "'f cs1000 \<Rightarrow> bool" where
  "get_remote s = remote s"

definition get_results :: "'f cs1000 \<Rightarrow> (string \<rightharpoonup> 'f val)" where
  "get_results s = results s"

definition set_remote :: "bool \<Rightarrow> (unit, 'f) action" where
  "set_remote on = (\<lambda>s.
     if on then
       (if \<not> remote s then
          block [com_write ''RMT,1\<newline>'',
                 discard com_readline,
                 (\<lambda>s. (Return (), s\<lparr>remote := True\<rparr>))] s
        else ret () s)
     else
       (if remote s then
          block [com_write ''RMT,0\<newline>'',
                 (\<lambda>s. (Return (), s\<lparr>remote := False\<rparr>)),
                 (\<lambda>s. (Return (), s\<lparr>com := Some Serial_unopened\<rparr>))] s
        else ret () s))"

text \<open>
  \<open>connect\<close>: the argument \<open>opened\<close> is what \<open>serial.Serial(port, baudrate=baud_rate)\<close>
  evaluates to, an open port or the exception of a port that cannot be opened.
\<close>

definition connect :: "exn + serial \<Rightarrow> (unit, 'f) action" where
  "connect opened =
     block [(\<lambda>s. if remote s then set_remote False s else ret () s),
            (\<lambda>s. case opened of
                Inl e \<Rightarrow> (Raise e, s)
              | Inr p \<Rightarrow> (Return (), s\<lparr>com := Some p\<rparr>))]"

definition disconnect :: "(unit, 'f) action" where
  "disconnect =
     block [(\<lambda>s. if remote s then set_remote False s else ret () s),
            (\<lambda>s. (Return (), s\<lparr>com := None\<rparr>))]"

text \<open>\<open>self.results[k] = float(ans[i])\<close> and \<open>self.results[k] = ans[i]\<close>\<close>

definition store_float :: "(string \<Rightarrow> 'f option) \<Rightarrow> string \<Rightarrow> string list \<Rightarrow> nat \<Rightarrow> (unit, 'f) action" where
  "store_float pf k ans i = bnd (getitem ans i) (\<lambda>a. bnd (py_float pf a) (\<lambda>x. setitem k (Float x)))"

definition store_raw :: "string \<Rightarrow> string list \<Rightarrow> nat \<Rightarrow> (unit, 'f) action" where
  "store_raw k ans i = bnd (getitem ans i) (\<lambda>a. setitem k (Str a))"

text \<open>
  The eleven assignments after \<open>ans = ans.split(',')\<close>. The source writes them out twice,
  with the keys ending in \<open>2\<close> and in \<open>10\<close>; \<open>sfx\<close> is that ending.
\<close>

definition store_block :: "(string \<Rightarrow> 'f option) \<Rightarrow> string \<Rightarrow> string list \<Rightarrow> (unit, 'f) action" where
  "store_block pf sfx ans =
     block [store_float pf (''Le'' @ sfx) ans 0,
            store_float pf (''Lv'' @ sfx) ans 1,
            store_float pf (''X'' @ sfx) ans 2,
            store_float pf (''Y'' @ sfx) ans 3,
            store_float pf (''Z'' @ sfx) ans 4,
            store_float pf (''x'' @ sfx) ans 5,
            store_float pf (''y'' @ sfx) ans 6,
            store_float pf (''u'' @ sfx) ans 7,
            store_float pf (''v'' @ sfx) ans 8,
            store_raw (''T'' @ sfx) ans 9,
            store_raw (''Duv'' @ sfx) ans 8]"

text \<open>\<open>for a in ans: spectrum.append(float(a.strip()))\<close>\<close>

fun append_floats :: "(string \<Rightarrow> 'f option) \<Rightarrow> string list \<Rightarrow> 'f list \<Rightarrow> ('f list, 'f) action" where
  "append_floats pf [] spectrum = ret spectrum"
| "append_floats pf (a # as) spectrum =
     bnd (py_float pf (strip a)) (\<lambda>x. append_floats pf as (spectrum @ [x]))"

text \<open>\<open>for i in range(n)\<close>: write \<open>&\<close>, read a line, split it, append its floats.\<close>

fun spectral_loop :: "(string \<Rightarrow> 'f option) \<Rightarrow> nat \<Rightarrow> 'f list \<Rightarrow> ('f list, 'f) action" where
  "spectral_loop pf 0 spectrum = ret spectrum"
| "spectral_loop pf (Suc n) spectrum =
     bnd (com_write ''&\<newline>'') (\<lambda>_.
     bnd com_readline (\<lambda>ans.
     bnd (append_floats pf (split_comma ans) spectrum) (spectral_loop pf n)))"

text \<open>
  \<open>lambd = 380 + np.arange(len(spectrum))\<close> and \<open>np.array([lambd, spectrum]).T\<close>: the rows
  of the array pair the wavelengths with the intensities. (numpy holds the wavelengths as
  floats in the array; they are whole numbers, kept as naturals here.)
\<close>

definition with_wavelengths :: "'f list \<Rightarrow> (nat \<times> 'f) list" where
  "with_wavelengths spectrum = zip (map (\<lambda>i. 380 + i) [0..<length spectrum]) spectrum"

definition measure_op :: "(string \<Rightarrow> 'f option) \<Rightarrow> (unit, 'f) action" where
  "measure_op pf =
     block [(\<lambda>s. if \<not> remote s then set_remote True s else ret () s),
            com_write ''MES,1\<newline>'',
            discard com_readline,
            discard com_readline,
            com_write ''BDR,1,0,0\<newline>'',
            discard com_readline,
            com_write ''&\<newline>'',
            bnd com_readline (\<lambda>ans. store_block pf ''2'' (split_comma ans)),
            com_write ''BDR,1,1,0\<newline>'',
            discard com_readline,
            com_write ''&\<newline>'',
            bnd com_readline (\<lambda>ans. store_block pf ''10'' (split_comma ans)),
            com_write ''BDR,0,0,0\<newline>'',
            discard com_readline,
            bnd (spectral_loop pf 15 [])
              (\<lambda>spectrum. setitem ''spectrum'' (Array (with_wavelengths spectrum)))]"

section \<open>Clients, specifications and examples\<close>

subsection \<open>A client of the driver\<close>

text \<open>
  A client calls the methods of one object one after another; it catches an exception
  and goes on. \<open>drive\<close> gives the object after a list of calls. The states it reaches from
  \<open>init\<close> include every state a program can bring the object to through its methods
  (\<open>CS1000(port)\<close> is \<open>init\<close> followed by \<open>Connect\<close>).
\<close>

datatype call = Connect "exn + serial" | Disconnect | Set_remote bool | Measure

fun exec :: "(string \<Rightarrow> 'f option) \<Rightarrow> call \<Rightarrow> (unit, 'f) action" where
  "exec pf (Connect opened) = connect opened"
| "exec pf Disconnect = disconnect"
| "exec pf (Set_remote on) = set_remote on"
| "exec pf Measure = measure_op pf"

fun drive :: "(string \<Rightarrow> 'f option) \<Rightarrow> call list \<Rightarrow> 'f cs1000 \<Rightarrow> 'f cs1000" where
  "drive pf [] s = s"
| "drive pf (c # cs) s = drive pf cs (snd (exec pf c s))"

subsection \<open>The exchange on the wire\<close>

text \<open>
  The sequence of writes and reads of a measurement as the specification lists it, in
  terms of the history \<open>wire\<close>: the exchange that enables remote control, done only when it
  is not yet enabled (and so with the flag still false at the write), and the fixed
  exchange that follows, all of it with the flag true.
\<close>

definition remote_exchange :: "bool \<Rightarrow> event list" where
  "remote_exchange r = (if r then [] else [Sent False ''RMT,1\<newline>'', Received])"

definition measure_exchange :: "event list" where
  "measure_exchange =
     [Sent True ''MES,1\<newline>'', Received, Received,
      Sent True ''BDR,1,0,0\<newline>'', Received,
      Sent True ''&\<newline>'', Received,
      Sent True ''BDR,1,1,0\<newline>'', Received,
      Sent True ''&\<newline>'', Received,
      Sent True ''BDR,0,0,0\<newline>'', Received]
     @ concat (replicate 15 [Sent True ''&\<newline>'', Received])"

text \<open>
  The measurement commands: \<open>MES,1\<close>, the \<open>BDR\<close> commands and \<open>&\<close>. An entry of the
  history is in order when it is not the write of a measurement command with the flag
  false. \<open>off_exchange\<close> is what \<open>connect\<close> and \<open>disconnect\<close> write: \<open>RMT,0\<close> when remote control
  is on.
\<close>

definition measurement_command :: "string \<Rightarrow> bool" where
  "measurement_command b \<longleftrightarrow> b = ''MES,1\<newline>'' \<or> take 3 b = ''BDR'' \<or> b = ''&\<newline>''"

definition flag_ok :: "event \<Rightarrow> bool" where
  "flag_ok e = (case e of Sent r b \<Rightarrow> measurement_command b \<longrightarrow> r | Received \<Rightarrow> True)"

definition off_exchange :: "bool \<Rightarrow> event list" where
  "off_exchange r = (if r then [Sent True ''RMT,0\<newline>''] else [])"

subsection \<open>The keys of the result set\<close>

text \<open>
  The keys that \<open>store_block\<close> assigns, in the order of the assignments, and the 22 keys of
  the two blocks together.
\<close>

definition block_keys :: "string \<Rightarrow> string list" where
  "block_keys sfx = map (\<lambda>n. n @ sfx)
     [''Le'', ''Lv'', ''X'', ''Y'', ''Z'', ''x'', ''y'', ''u'', ''v'', ''T'', ''Duv'']"

definition scalar_keys :: "string list" where
  "scalar_keys = block_keys ''2'' @ block_keys ''10''"

text \<open>
  What the specification says of a stored data block with fields \<open>fs\<close>: at least ten
  fields; the first nine accepted by \<open>float\<close> and stored as floats under the nine names;
  the tenth stored as text under \<open>T\<close>; and \<open>Duv\<close> the text of the field at index 8.
\<close>

definition float_names :: "string list" where
  "float_names = [''Le'', ''Lv'', ''X'', ''Y'', ''Z'', ''x'', ''y'', ''u'', ''v'']"

definition spec_block :: "(string \<Rightarrow> 'f option) \<Rightarrow> string \<Rightarrow> string list \<Rightarrow> (string \<rightharpoonup> 'f val) \<Rightarrow> bool" where
  "spec_block pf sfx fs m \<longleftrightarrow>
     10 \<le> length fs
     \<and> (\<forall>i\<in>{0..<9}. pf (fs ! i) \<noteq> None
          \<and> m (float_names ! i @ sfx) = map_option Float (pf (fs ! i)))
     \<and> m (''T'' @ sfx) = Some (Str (fs ! 9))
     \<and> m (''Duv'' @ sfx) = Some (Str (fs ! 8))"

text \<open>
  The same block as the code builds it, used in the proofs: the condition under which the
  eleven assignments all succeed, and the entries they add.
\<close>

definition block_ok :: "(string \<Rightarrow> 'f option) \<Rightarrow> string list \<Rightarrow> bool" where
  "block_ok pf ans \<longleftrightarrow> 10 \<le> length ans \<and> list_all (\<lambda>a. pf a \<noteq> None) (take 9 ans)"

definition block_map :: "(string \<Rightarrow> 'f option) \<Rightarrow> string \<Rightarrow> string list \<Rightarrow> (string \<rightharpoonup> 'f val)" where
  "block_map pf sfx ans =
     [''Le'' @ sfx \<mapsto> Float (the (pf (ans ! 0))),
      ''Lv'' @ sfx \<mapsto> Float (the (pf (ans ! 1))),
      ''X'' @ sfx \<mapsto> Float (the (pf (ans ! 2))),
      ''Y'' @ sfx \<mapsto> Float (the (pf (ans ! 3))),
      ''Z'' @ sfx \<mapsto> Float (the (pf (ans ! 4))),
      ''x'' @ sfx \<mapsto> Float (the (pf (ans ! 5))),
      ''y'' @ sfx \<mapsto> Float (the (pf (ans ! 6))),
      ''u'' @ sfx \<mapsto> Float (the (pf (ans ! 7))),
      ''v'' @ sfx \<mapsto> Float (the (pf (ans ! 8))),
      ''T'' @ sfx \<mapsto> Str (ans ! 9),
      ''Duv'' @ sfx \<mapsto> Str (ans ! 8)]"

subsection \<open>Properties of statements\<close>

text \<open>
  Four properties of a statement, each kept by sequencing, from which the properties of
  the methods are put together.
  \<^item> \<open>emits r a es r'\<close>: started with the flag \<open>remote\<close> equal to \<open>r\<close>, the statement adds to the
    history an initial part of \<open>es\<close>, and all of \<open>es\<close> when it returns, then with the flag \<open>r'\<close>.
  \<^item> \<open>assigns a ks kf\<close>: the statement assigns to the keys \<open>ks\<close> of the result set, in this
    order; when it does not return it has assigned to an initial part of them, no longer
    than \<open>kf\<close>.
  \<^item> \<open>only_results a\<close>: the statement changes nothing but the result set.
  \<^item> \<open>keeps_com a\<close>: the statement never sets a handle that is there to \<open>None\<close>.
\<close>

definition emits :: "bool \<Rightarrow> ('a, 'f) action \<Rightarrow> event list \<Rightarrow> bool \<Rightarrow> bool" where
  "emits r a es r' \<longleftrightarrow>
     (\<forall>s out s'. remote s = r \<longrightarrow> a s = (out, s') \<longrightarrow>
        (\<exists>done. wire s' = wire s @ done \<and> prefix done es \<and>
           (\<forall>x. out = Return x \<longrightarrow> done = es \<and> remote s' = r')))"

definition assigns :: "('a, 'f) action \<Rightarrow> string list \<Rightarrow> string list \<Rightarrow> bool" where
  "assigns a ks kf \<longleftrightarrow> length kf \<le> length ks \<and>
     (\<forall>s out s'. a s = (out, s') \<longrightarrow>
        (\<exists>vs. results s' = fold (\<lambda>(k, v) m. m(k \<mapsto> v)) (zip ks vs) (results s) \<and>
           (if \<exists>x. out = Return x then length vs = length ks else length vs \<le> length kf)))"

definition only_results :: "('a, 'f) action \<Rightarrow> bool" where
  "only_results a \<longleftrightarrow> (\<forall>s out s'. a s = (out, s') \<longrightarrow> s' = s\<lparr>results := results s'\<rparr>)"

definition keeps_com :: "('a, 'f) action \<Rightarrow> bool" where
  "keeps_com a \<longleftrightarrow> (\<forall>s out s'. com s \<noteq> None \<longrightarrow> a s = (out, s') \<longrightarrow> com s' \<noteq> None)"

text \<open>
  \<open>feeds r a ls Q r'\<close>: on an open port that accepts every write and whose input starts
  with the lines \<open>ls\<close>, the statement returns a value with \<open>Q\<close>, having read exactly \<open>ls\<close>.
  \<open>inbox_of\<close> is the input still to be read.
\<close>

definition inbox_of :: "'f cs1000 \<Rightarrow> reply list" where
  "inbox_of s = (case com s of None \<Rightarrow> [] | Some p \<Rightarrow> inbox p)"

definition feeds :: "bool \<Rightarrow> ('a, 'f) action \<Rightarrow> string list \<Rightarrow> ('a \<Rightarrow> bool) \<Rightarrow> bool \<Rightarrow> bool" where
  "feeds r a ls Q r' \<longleftrightarrow>
     (\<forall>s p rest. remote s = r \<longrightarrow> com s = Some p \<longrightarrow> is_open p \<longrightarrow> wscript p = [] \<longrightarrow>
        inbox p = map Line ls @ rest \<longrightarrow>
        (\<exists>x s'. a s = (Return x, s') \<and> Q x \<and> com s' = Some (p\<lparr>inbox := rest\<rparr>) \<and> remote s' = r'))"

subsection \<open>Examples\<close>

text \<open>
  An instance of the parameter \<open>pf\<close> for running the model: unsigned decimal numerals
  (\<open>6500\<close>, \<open>12.3\<close>) with whitespace around them, as exact reals. Python's \<open>float\<close> accepts
  these texts, and more.
\<close>

definition is_digit :: "char \<Rightarrow> bool" where
  "is_digit c \<longleftrightarrow> (let n = of_char c :: nat in 48 \<le> n \<and> n \<le> 57)"

definition nat_of_digits :: "string \<Rightarrow> nat" where
  "nat_of_digits ds = foldl (\<lambda>n c. 10 * n + (of_char c - 48)) 0 ds"

definition decimal :: "string \<Rightarrow> real option" where
  "decimal a =
     (let b = strip a; ip = takeWhile (\<lambda>c. c \<noteq> CHR ''.'') b; fp = drop (Suc (length ip)) b in
      if ip \<noteq> [] \<and> list_all is_digit ip \<and> list_all is_digit fp
      then Some (of_nat (nat_of_digits (ip @ fp)) / 10 ^ length fp) else None)"

text \<open>
  A device that answers a whole measurement: the acknowledgements of \<open>RMT,1\<close>, \<open>MES,1\<close>
  (two) and \<open>BDR,1,0,0\<close>, the 2-degree data line, the acknowledgement and data line of the
  10-degree block (this one ending in a newline), and the fifteen spectral lines.
  \<open>example_state\<close> is a fresh object connected to it, \<open>example_done\<close> the object after
  \<open>measure()\<close>.
\<close>

definition example_replies :: "string list" where
  "example_replies =
     [''OK00\<newline>'', ''OK00\<newline>'', ''OK00\<newline>'', ''OK00\<newline>'',
      ''12.3,45.6,1.1,2.2,3.3,0.33,0.34,0.1,0.2,6500'', ''OK00\<newline>'',
      ''12.4,45.7,1.2,2.3,3.4,0.31,0.32,0.3,0.4,6400\<newline>'', ''OK00\<newline>'']
     @ replicate 15 ''1,2,3,4,5,6,7,8,9,10\<newline>''"

definition example_port :: serial where
  "example_port = \<lparr>is_open = True, wscript = [], inbox = map Line example_replies\<rparr>"

definition example_state :: "real cs1000" where
  "example_state = \<lparr>results = Map.empty, com = Some example_port, remote = False, wire = []\<rparr>"

definition example_done :: "real cs1000" where
  "example_done = snd (measure_op decimal example_state)"

text \<open>
  Three devices that fail: one whose second write fails (the object is taken to remote
  control on it), one whose 2-degree data line has a field that is no number, and one
  whose port breaks at the reply to \<open>BDR,1,1,0\<close>.
\<close>

definition failing_port :: serial where
  "failing_port = \<lparr>is_open = True, wscript = [True, False], inbox = [Line ''OK00\<newline>'']\<rparr>"

definition unplugged_state :: "real cs1000" where
  "unplugged_state = drive decimal [Connect (Inr failing_port), Set_remote True] init"





section \<open>Lemmas\<close>

subsection \<open>Sequencing and the primitive statements\<close>

lemma bnd_Return_iff:
  "bnd m f s = (Return y, s'') \<longleftrightarrow> (\<exists>x s'. m s = (Return x, s') \<and> f x s' = (Return y, s''))"
  by (auto simp: bnd_def split: prod.splits outcome.splits)

lemma bnd_cases:
  assumes "bnd m f s = (out, s'')"
  obtains (first) e where "m s = (e, s'')" "\<forall>x. e \<noteq> Return x" "out = (case e of Raise x \<Rightarrow> Raise x | _ \<Rightarrow> Hang)"
        | (second) x s' where "m s = (Return x, s')" "f x s' = (out, s'')"
  using assms by (auto simp: bnd_def split: prod.splits outcome.splits)

lemma block_Cons_Return_iff:
  "block (a # as) s = (Return (), s'') \<longleftrightarrow> (\<exists>s'. a s = (Return (), s') \<and> block as s' = (Return (), s''))"
  by (simp add: bnd_Return_iff)

lemma block_Nil_Return_iff: "block [] s = (Return (), s') \<longleftrightarrow> s' = s"
  by (auto simp: ret_def)

lemma discard_Return_iff: "discard m s = (Return (), s') \<longleftrightarrow> (\<exists>x. m s = (Return x, s'))"
  by (auto simp: discard_def bnd_Return_iff ret_def)

lemma com_write_ReturnD:
  assumes "com_write b s = (Return u, s')"
  shows "inbox_of s' = inbox_of s" "results s' = results s" "remote s' = remote s"
    "wire s' = wire s @ [Sent (remote s) b]" "com s \<noteq> None" "com s' \<noteq> None"
  using assms by (auto simp: com_write_def inbox_of_def split: option.splits if_splits list.splits bool.splits)

lemma com_readline_ReturnD:
  assumes "com_readline s = (Return l, s')"
  shows "inbox_of s = Line l # inbox_of s'" "results s' = results s" "remote s' = remote s"
    "wire s' = wire s @ [Received]" "com s \<noteq> None" "com s' \<noteq> None"
  using assms by (auto simp: com_readline_def inbox_of_def split: option.splits if_splits list.splits reply.splits)

lemma store_float_Return_iff:
  "store_float pf k ans i s = (Return (), s') \<longleftrightarrow>
     i < length ans \<and> (\<exists>x. pf (ans ! i) = Some x \<and> s' = s\<lparr>results := (results s)(k \<mapsto> Float x)\<rparr>)"
  by (auto simp: store_float_def getitem_def py_float_def setitem_def bnd_def ret_def raise_def split: option.splits)

lemma store_raw_Return_iff:
  "store_raw k ans i s = (Return (), s') \<longleftrightarrow>
     i < length ans \<and> s' = s\<lparr>results := (results s)(k \<mapsto> Str (ans ! i))\<rparr>"
  by (auto simp: store_raw_def getitem_def setitem_def bnd_def ret_def raise_def)

subsection \<open>The history of writes and reads\<close>

lemma emitsD:
  assumes "emits r a es r'" "remote s = r" "a s = (out, s')"
  obtains d where "wire s' = wire s @ d" "prefix d es" "\<And>x. out = Return x \<Longrightarrow> d = es \<and> remote s' = r'"
  using assms unfolding emits_def by meson

lemma emits_bnd:
  assumes "emits r a es1 r1" and "\<And>x. emits r1 (f x) es2 r2"
  shows "emits r (bnd a f) (es1 @ es2) r2"
  unfolding emits_def
proof (intro allI impI)
  fix s out s''
  assume r: "remote s = r" and b: "bnd a f s = (out, s'')"
  from b show "\<exists>done. wire s'' = wire s @ done \<and> prefix done (es1 @ es2) \<and>
           (\<forall>x. out = Return x \<longrightarrow> done = es1 @ es2 \<and> remote s'' = r2)"
  proof (cases rule: bnd_cases)
    case (first e)
    from emitsD[OF assms(1) r first(1)] obtain d where d: "wire s'' = wire s @ d" "prefix d es1"
      by blast
    from first have "\<forall>x. out \<noteq> Return x" by (cases e) auto
    with d show ?thesis by (intro exI[of _ d]) (simp add: prefix_prefix)
  next
    case (second x s')
    from emitsD[OF assms(1) r second(1)] have 1: "wire s' = wire s @ es1" "remote s' = r1"
      by blast+
    from emitsD[OF assms(2)[of x] 1(2) second(2)] obtain d where
      d: "wire s'' = wire s' @ d" "prefix d es2" "\<And>y. out = Return y \<Longrightarrow> d = es2 \<and> remote s'' = r2"
      by blast
    show ?thesis using d 1 by (intro exI[of _ "es1 @ d"]) simp
  qed
qed

lemma emitsI:
  assumes "\<And>s out s'. remote s = r \<Longrightarrow> a s = (out, s') \<Longrightarrow>
     (\<exists>d. wire s' = wire s @ d \<and> prefix d es \<and> (\<forall>x. out = Return x \<longrightarrow> d = es \<and> remote s' = r'))"
  shows "emits r a es r'"
  unfolding emits_def using assms by blast

lemma emits_ret: "emits r (ret x) [] r"
  by (rule emitsI) (simp add: ret_def)

lemma emits_block_Cons:
  "emits r a es1 r1 \<Longrightarrow> emits r1 (block as) es2 r2 \<Longrightarrow> emits r (block (a # as)) (es1 @ es2) r2"
  by (simp add: emits_bnd)

lemma emits_discard: "emits r m es r' \<Longrightarrow> emits r (discard m) es r'"
  using emits_bnd[of r m es r' "\<lambda>_. ret ()" "[]" r'] by (simp add: discard_def emits_ret)

lemma com_write_cases:
  assumes "com_write b s = (out, s')"
  obtains (ok) "out = Return ()" "wire s' = wire s @ [Sent (remote s) b]" "remote s' = remote s"
      "results s' = results s" "com s \<noteq> None" "com s' \<noteq> None"
    | (fail) e where "out = Raise e" "wire s' = wire s" "remote s' = remote s" "results s' = results s"
      "com s = None \<longleftrightarrow> com s' = None"
proof (cases "com s")
  case None
  with assms have "out = Raise AttributeError" "s' = s" by (simp_all add: com_write_def)
  with None show ?thesis by (intro fail[of AttributeError]) simp_all
next
  case (Some p)
  show ?thesis
  proof (cases "is_open p")
    case False
    with Some assms have "out = Raise SerialException" "s' = s" by (simp_all add: com_write_def)
    with Some show ?thesis by (intro fail[of SerialException]) simp_all
  next
    case True
    show ?thesis
    proof (cases "wscript p")
      case Nil
      with Some True assms have "out = Return ()" "s' = s\<lparr>wire := wire s @ [Sent (remote s) b]\<rparr>"
        by (simp_all add: com_write_def)
      with Some show ?thesis by (intro ok) simp_all
    next
      case (Cons w ws)
      show ?thesis
      proof (cases w)
        case True
        with Some \<open>is_open p\<close> Cons assms have "out = Return ()"
          "s' = s\<lparr>com := Some (p\<lparr>wscript := ws\<rparr>), wire := wire s @ [Sent (remote s) b]\<rparr>"
          by (simp_all add: com_write_def)
        with Some show ?thesis by (intro ok) simp_all
      next
        case False
        with Some \<open>is_open p\<close> Cons assms have "out = Raise SerialException"
          "s' = s\<lparr>com := Some (p\<lparr>wscript := ws\<rparr>)\<rparr>"
          by (simp_all add: com_write_def)
        with Some show ?thesis by (intro fail[of SerialException]) simp_all
      qed
    qed
  qed
qed

lemma com_readline_cases:
  assumes "com_readline s = (out, s')"
  obtains (ok) l where "out = Return l" "wire s' = wire s @ [Received]" "remote s' = remote s"
      "results s' = results s" "com s \<noteq> None" "com s' \<noteq> None"
    | (garbled) "out = Raise UnicodeDecodeError" "wire s' = wire s @ [Received]" "remote s' = remote s"
      "results s' = results s" "com s \<noteq> None" "com s' \<noteq> None"
    | (fail) "out = Raise AttributeError \<or> out = Raise SerialException \<or> out = Hang"
      "wire s' = wire s" "remote s' = remote s" "results s' = results s"
      "com s = None \<longleftrightarrow> com s' = None"
proof (cases "com s")
  case None
  with assms have "out = Raise AttributeError" "s' = s" by (simp_all add: com_readline_def)
  with None show ?thesis by (intro fail) simp_all
next
  case (Some p)
  show ?thesis
  proof (cases "is_open p")
    case False
    with Some assms have "out = Raise SerialException" "s' = s" by (simp_all add: com_readline_def)
    with Some show ?thesis by (intro fail) simp_all
  next
    case True
    show ?thesis
    proof (cases "inbox p")
      case Nil
      with Some True assms have "out = Hang" "s' = s" by (simp_all add: com_readline_def)
      with Some show ?thesis by (intro fail) simp_all
    next
      case (Cons w ws)
      show ?thesis
      proof (cases w)
        case (Line l)
        with Some True Cons assms have "out = Return l"
          "s' = s\<lparr>com := Some (p\<lparr>inbox := ws\<rparr>), wire := wire s @ [Received]\<rparr>"
          by (simp_all add: com_readline_def)
        with Some show ?thesis by (intro ok[of l]) simp_all
      next
        case Garbled
        with Some True Cons assms have "out = Raise UnicodeDecodeError"
          "s' = s\<lparr>com := Some (p\<lparr>inbox := ws\<rparr>), wire := wire s @ [Received]\<rparr>"
          by (simp_all add: com_readline_def)
        with Some show ?thesis by (intro garbled) simp_all
      next
        case Broken
        with Some True Cons assms have "out = Raise SerialException"
          "s' = s\<lparr>com := Some (p\<lparr>inbox := ws\<rparr>)\<rparr>"
          by (simp_all add: com_readline_def)
        with Some show ?thesis by (intro fail) simp_all
      qed
    qed
  qed
qed

lemma emits_com_write: "emits r (com_write b) [Sent r b] r"
proof (rule emitsI)
  fix s out s' assume "remote s = r" "com_write b s = (out, (s' :: 'a cs1000))"
  from this(2) this(1) show "\<exists>d. wire s' = wire s @ d \<and> prefix d [Sent r b] \<and> (\<forall>x. out = Return x \<longrightarrow> d = [Sent r b] \<and> remote s' = r)"
    by (cases rule: com_write_cases) simp_all
qed

lemma emits_com_readline: "emits r com_readline [Received] r"
proof (rule emitsI)
  fix s out s' assume "remote s = r" "com_readline s = (out, (s' :: 'a cs1000))"
  from this(2) this(1) show "\<exists>d. wire s' = wire s @ d \<and> prefix d [Received] \<and> (\<forall>x. out = Return x \<longrightarrow> d = [Received] \<and> remote s' = r)"
    by (cases rule: com_readline_cases) auto
qed

lemma block_single: "block [a] = a"
  by (rule ext) (simp add: bnd_def ret_def split: prod.splits outcome.splits)

lemma emits_block_Nil: "emits r (block []) [] r"
  by (simp add: emits_ret)

lemma set_remote_same: "remote s = on \<Longrightarrow> set_remote on s = (Return (), s)"
  by (auto simp: set_remote_def ret_def)

lemma emits_upd_remote: "emits r (\<lambda>s. (Return (), s\<lparr>remote := b\<rparr>)) [] b"
  by (rule emitsI) auto

lemma emits_upd_com: "emits r (\<lambda>s. (Return (), s\<lparr>com := c\<rparr>)) [] r"
  by (rule emitsI) auto

lemma emits_cong: "emits r a es r' \<Longrightarrow> (\<And>s. remote s = r \<Longrightarrow> b s = a s) \<Longrightarrow> emits r b es r'"
  unfolding emits_def by metis

lemma emits_set_remote_on: "emits False (set_remote True) [Sent False ''RMT,1\<newline>'', Received] True"
proof -
  let ?b = "block [com_write ''RMT,1\<newline>'', discard com_readline,
                 (\<lambda>s. (Return (), s\<lparr>remote := True\<rparr>))]"
  have "emits False ?b ([Sent False ''RMT,1\<newline>''] @ [Received] @ [] @ []) True"
    by (rule emits_block_Cons emits_com_write emits_discard emits_com_readline emits_upd_remote
          emits_block_Nil)+
  then have "emits False ?b [Sent False ''RMT,1\<newline>'', Received] True"
    by simp
  then show ?thesis
    by (rule emits_cong) (simp add: set_remote_def)
qed

lemma emits_set_remote_off: "emits True (set_remote False) [Sent True ''RMT,0\<newline>''] False"
proof -
  let ?b = "block [com_write ''RMT,0\<newline>'',
                 (\<lambda>s. (Return (), s\<lparr>remote := False\<rparr>)),
                 (\<lambda>s. (Return (), s\<lparr>com := Some Serial_unopened\<rparr>))]"
  have "emits True ?b ([Sent True ''RMT,0\<newline>''] @ [] @ [] @ []) False"
    by (rule emits_block_Cons emits_com_write emits_upd_remote emits_upd_com emits_block_Nil)+
  then have "emits True ?b [Sent True ''RMT,0\<newline>''] False"
    by simp
  then show ?thesis
    by (rule emits_cong) (simp add: set_remote_def)
qed

lemma emits_set_remote_same: "emits r (set_remote r) [] r"
  by (rule emitsI) (simp add: set_remote_same)

subsection \<open>Statements that change only the result set\<close>

lemma only_results_bnd:
  assumes "only_results m" "\<And>x. only_results (f x)"
  shows "only_results (bnd m f)"
  unfolding only_results_def
proof (intro allI impI)
  fix s out s'' assume "bnd m f s = (out, s'')"
  then show "s'' = s\<lparr>results := results s''\<rparr>"
  proof (cases rule: bnd_cases)
    case (first e)
    with assms(1) show ?thesis unfolding only_results_def by blast
  next
    case (second x s')
    with assms(1) have 1: "s' = s\<lparr>results := results s'\<rparr>" unfolding only_results_def by blast
    from second assms(2)[of x] have 2: "s'' = s'\<lparr>results := results s''\<rparr>"
      unfolding only_results_def by blast
    show ?thesis by (subst 2, subst 1) simp
  qed
qed

lemma only_results_ret: "only_results (ret x)"
  by (simp add: only_results_def ret_def)

lemma only_results_raise: "only_results (raise e)"
  by (simp add: only_results_def raise_def)

lemma only_results_setitem: "only_results (setitem k v)"
  by (auto simp: only_results_def setitem_def)

lemma only_results_getitem: "only_results (getitem ans i)"
  by (simp add: getitem_def only_results_ret only_results_raise)

lemma only_results_py_float: "only_results (py_float pf a)"
  by (simp add: py_float_def only_results_ret only_results_raise split: option.splits)

lemma only_results_store_float: "only_results (store_float pf k ans i)"
  unfolding store_float_def
  by (intro only_results_bnd only_results_getitem only_results_py_float only_results_setitem)

lemma only_results_store_raw: "only_results (store_raw k ans i)"
  unfolding store_raw_def
  by (intro only_results_bnd only_results_getitem only_results_setitem)

lemma only_results_block:
  "(\<And>a. a \<in> set as \<Longrightarrow> only_results a) \<Longrightarrow> only_results (block as)"
  by (induction as) (simp_all add: only_results_ret only_results_bnd)

lemma only_results_store_block: "only_results (store_block pf sfx ans)"
  unfolding store_block_def
  by (rule only_results_block) (auto simp: only_results_store_float only_results_store_raw)

lemma only_results_append_floats: "only_results (append_floats pf as acc)"
  by (induction as arbitrary: acc)
     (simp_all add: only_results_ret only_results_bnd only_results_py_float)

lemma only_resultsD:
  assumes "only_results a" "a s = (out, s')"
  shows "wire s' = wire s" "remote s' = remote s" "com s' = com s"
proof -
  from assms have eq: "s' = s\<lparr>results := results s'\<rparr>" unfolding only_results_def by blast
  show "wire s' = wire s" using arg_cong[where f=wire, OF eq] by simp
  show "remote s' = remote s" using arg_cong[where f=remote, OF eq] by simp
  show "com s' = com s" using arg_cong[where f=com, OF eq] by simp
qed

lemma emits_only_results: "only_results a \<Longrightarrow> emits r a [] r"
  by (rule emitsI) (simp add: only_resultsD)

subsection \<open>The history of a measurement\<close>

lemma emits_spectral_loop:
  "emits True (spectral_loop pf n acc) (concat (replicate n [Sent True ''&\<newline>'', Received])) True"
proof (induction n arbitrary: acc)
  case 0
  show ?case by (simp add: emits_ret)
next
  case (Suc n)
  have "emits True (spectral_loop pf (Suc n) acc)
          ([Sent True ''&\<newline>''] @ [Received] @ [] @ concat (replicate n [Sent True ''&\<newline>'', Received])) True"
    unfolding spectral_loop.simps
    by (rule emits_bnd emits_com_write emits_com_readline emits_only_results
          only_results_append_floats Suc.IH)+
  then show ?case by simp
qed

lemma emits_ensure_remote:
  "emits r (\<lambda>s. if \<not> remote s then set_remote True s else ret () s) (remote_exchange r) True"
proof (cases r)
  case True
  have "emits True (ret ()) [] True" by (rule emits_ret)
  then have "emits True (\<lambda>s. if \<not> remote s then set_remote True s else ret () s) [] True"
    by (rule emits_cong) simp
  with True show ?thesis by (simp add: remote_exchange_def)
next
  case False
  have "emits False (\<lambda>s. if \<not> remote s then set_remote True s else ret () s)
          [Sent False ''RMT,1\<newline>'', Received] True"
    by (rule emits_cong[OF emits_set_remote_on]) simp
  with False show ?thesis by (simp add: remote_exchange_def)
qed

lemma emits_measure_op: "emits r (measure_op pf) (remote_exchange r @ measure_exchange) True"
proof -
  have "emits r (measure_op pf)
     (remote_exchange r @ [Sent True ''MES,1\<newline>''] @ [Received] @ [Received] @
      [Sent True ''BDR,1,0,0\<newline>''] @ [Received] @
      [Sent True ''&\<newline>''] @ ([Received] @ []) @
      [Sent True ''BDR,1,1,0\<newline>''] @ [Received] @
      [Sent True ''&\<newline>''] @ ([Received] @ []) @
      [Sent True ''BDR,0,0,0\<newline>''] @ [Received] @
      (concat (replicate 15 [Sent True ''&\<newline>'', Received]) @ []) @ []) True"
    unfolding measure_op_def
    by (rule emits_block_Cons emits_block_Nil emits_ensure_remote emits_com_write emits_discard
          emits_com_readline emits_bnd emits_spectral_loop emits_only_results
          only_results_store_block only_results_setitem)+
  then show ?thesis by (simp add: measure_exchange_def)
qed

subsection \<open>Assignments to the result set\<close>

lemma zip_append_short: "length vs \<le> length ks1 \<Longrightarrow> zip (ks1 @ ks2) vs = zip ks1 vs"
  by (simp add: zip_append1)

lemma assignsI:
  assumes "length kf \<le> length ks"
    and "\<And>s out s'. a s = (out, s') \<Longrightarrow>
        (\<exists>vs. results s' = fold (\<lambda>(k, v) m. m(k \<mapsto> v)) (zip ks vs) (results s) \<and>
           (if \<exists>x. out = Return x then length vs = length ks else length vs \<le> length kf))"
  shows "assigns a ks kf"
  unfolding assigns_def using assms by blast

lemma assignsD:
  assumes "assigns a ks kf" "a s = (out, s')"
  obtains vs where "results s' = fold (\<lambda>(k, v) m. m(k \<mapsto> v)) (zip ks vs) (results s)"
    "(\<exists>x. out = Return x) \<Longrightarrow> length vs = length ks"
    "(\<forall>x. out \<noteq> Return x) \<Longrightarrow> length vs \<le> length kf"
proof -
  from assms obtain vs where
    "results s' = fold (\<lambda>(k, v) m. m(k \<mapsto> v)) (zip ks vs) (results s) \<and>
           (if \<exists>x. out = Return x then length vs = length ks else length vs \<le> length kf)"
    unfolding assigns_def by blast
  then show ?thesis by (intro that[of vs]) (simp_all split: if_splits)
qed

lemma assigns_length: "assigns a ks kf \<Longrightarrow> length kf \<le> length ks"
  by (simp add: assigns_def)

lemma assigns_bnd:
  assumes m: "assigns m ks1 kf1" and f: "\<And>x. assigns (f x) ks2 kf2"
  shows "assigns (bnd m f) (ks1 @ ks2) (ks1 @ kf2)"
proof (rule assignsI)
  show "length (ks1 @ kf2) \<le> length (ks1 @ ks2)"
    using assigns_length[OF f] by simp
next
  fix s out s'' assume "bnd m f s = (out, s'')"
  then show "\<exists>vs. results s'' = fold (\<lambda>(k, v) m. m(k \<mapsto> v)) (zip (ks1 @ ks2) vs) (results s) \<and>
           (if \<exists>x. out = Return x then length vs = length (ks1 @ ks2) else length vs \<le> length (ks1 @ kf2))"
  proof (cases rule: bnd_cases)
    case (first e)
    then have nr: "\<forall>x. out \<noteq> Return x" by (cases e) auto
    from first have ne: "\<forall>x. e \<noteq> Return x" by simp
    from assignsD[OF m first(1)] ne obtain vs where
      vs: "results s'' = fold (\<lambda>(k, v) m. m(k \<mapsto> v)) (zip ks1 vs) (results s)"
        "length vs \<le> length kf1" by blast
    from vs(2) assigns_length[OF m] have le: "length vs \<le> length ks1" by simp
    show ?thesis using vs(1) le nr by (intro exI[of _ vs]) (simp add: zip_append_short)
  next
    case (second x s')
    from assignsD[OF m second(1)] obtain vs1 where
      vs1: "results s' = fold (\<lambda>(k, v) m. m(k \<mapsto> v)) (zip ks1 vs1) (results s)"
        "length vs1 = length ks1" by blast
    from assignsD[OF f second(2)] obtain vs2 where
      vs2: "results s'' = fold (\<lambda>(k, v) m. m(k \<mapsto> v)) (zip ks2 vs2) (results s')"
        "(\<exists>x. out = Return x) \<Longrightarrow> length vs2 = length ks2"
        "(\<forall>x. out \<noteq> Return x) \<Longrightarrow> length vs2 \<le> length kf2" by blast
    show ?thesis using vs1 vs2 by (intro exI[of _ "vs1 @ vs2"]) auto
  qed
qed

lemma assigns_none:
  assumes "\<And>s out s'. a s = (out, s') \<Longrightarrow> results s' = results s"
  shows "assigns a [] []"
  by (rule assignsI) (use assms in auto)

lemma assigns_ret: "assigns (ret x) [] []"
  by (rule assigns_none) (simp add: ret_def)

lemma assigns_raise: "assigns (raise e) [] []"
  by (rule assigns_none) (simp add: raise_def)

lemma assigns_getitem: "assigns (getitem ans i) [] []"
  by (simp add: getitem_def assigns_ret assigns_raise)

lemma assigns_py_float: "assigns (py_float pf a) [] []"
  by (simp add: py_float_def assigns_ret assigns_raise split: option.splits)

lemma assigns_com_write: "assigns (com_write b) [] []"
  by (rule assigns_none) (erule com_write_cases; simp)

lemma assigns_com_readline: "assigns com_readline [] []"
  by (rule assigns_none) (erule com_readline_cases; simp)

lemma assigns_setitem: "assigns (setitem k v) [k] []"
proof (rule assignsI)
  fix s out s' assume "setitem k v s = (out, (s' :: 'a cs1000))"
  then have "out = Return ()" "results s' = (results s)(k \<mapsto> v)" by (auto simp: setitem_def)
  then show "\<exists>vs. results s' = fold (\<lambda>(k, v) m. m(k \<mapsto> v)) (zip [k] vs) (results s) \<and>
           (if \<exists>x. out = Return x then length vs = length [k] else length vs \<le> length [])"
    by (intro exI[of _ "[v]"]) simp
qed simp

lemma assigns_discard: "assigns m [] [] \<Longrightarrow> assigns (discard m) [] []"
  using assigns_bnd[of m "[]" "[]" "\<lambda>_. ret ()" "[]" "[]"] by (simp add: discard_def assigns_ret)

lemma assigns_block_Nil: "assigns (block []) [] []"
  by (simp add: assigns_ret)

lemma assigns_block_single: "assigns a ks kf \<Longrightarrow> assigns (block [a]) ks kf"
  by (simp only: block_single)

lemma assigns_block_Cons:
  "assigns a ks1 kf1 \<Longrightarrow> assigns (block as) ks2 kf2 \<Longrightarrow> assigns (block (a # as)) (ks1 @ ks2) (ks1 @ kf2)"
  by (simp add: assigns_bnd)

lemma assigns_store_float: "assigns (store_float pf k ans i) [k] []"
proof -
  have "assigns (store_float pf k ans i) ([] @ [] @ [k]) ([] @ [] @ [])"
    unfolding store_float_def
    by (rule assigns_bnd assigns_getitem assigns_py_float assigns_setitem)+
  then show ?thesis by simp
qed

lemma assigns_store_raw: "assigns (store_raw k ans i) [k] []"
proof -
  have "assigns (store_raw k ans i) ([] @ [k]) ([] @ [])"
    unfolding store_raw_def
    by (rule assigns_bnd assigns_getitem assigns_setitem)+
  then show ?thesis by simp
qed

lemma assigns_pointwise:
  assumes "length kf \<le> length ks" "\<And>s. \<exists>a. assigns a ks kf \<and> b s = a s"
  shows "assigns b ks kf"
  using assms unfolding assigns_def by metis

lemma assigns_store_block: "assigns (store_block pf sfx ans) (block_keys sfx) (take 10 (block_keys sfx))"
proof -
  have "assigns (store_block pf sfx ans) ([''Le'' @ sfx] @ [''Lv'' @ sfx] @ [''X'' @ sfx] @ [''Y'' @ sfx] @ [''Z'' @ sfx] @ [''x'' @ sfx] @ [''y'' @ sfx] @ [''u'' @ sfx] @ [''v'' @ sfx] @ [''T'' @ sfx] @ [''Duv'' @ sfx]) ([''Le'' @ sfx] @ [''Lv'' @ sfx] @ [''X'' @ sfx] @ [''Y'' @ sfx] @ [''Z'' @ sfx] @ [''x'' @ sfx] @ [''y'' @ sfx] @ [''u'' @ sfx] @ [''v'' @ sfx] @ [''T'' @ sfx] @ [])"
    unfolding store_block_def
    by (rule assigns_block_single assigns_block_Cons assigns_store_float assigns_store_raw)+
  then show ?thesis by (simp add: block_keys_def)
qed

lemma assigns_append_floats: "assigns (append_floats pf as acc) [] []"
proof (induction as arbitrary: acc)
  case Nil
  show ?case by (simp add: assigns_ret)
next
  case (Cons a as)
  have "assigns (append_floats pf (a # as) acc) ([] @ []) ([] @ [])"
    unfolding append_floats.simps by (rule assigns_bnd assigns_py_float Cons.IH)+
  then show ?case by simp
qed

lemma assigns_spectral_loop: "assigns (spectral_loop pf n acc) [] []"
proof (induction n arbitrary: acc)
  case 0
  show ?case by (simp add: assigns_ret)
next
  case (Suc n)
  have "assigns (spectral_loop pf (Suc n) acc) ([] @ [] @ [] @ []) ([] @ [] @ [] @ [])"
    unfolding spectral_loop.simps
    by (rule assigns_bnd assigns_com_write assigns_com_readline assigns_append_floats Suc.IH)+
  then show ?case by simp
qed

lemma assigns_upd_remote: "assigns (\<lambda>s. (Return (), s\<lparr>remote := b\<rparr>)) [] []"
  by (rule assigns_none) auto

lemma assigns_upd_com: "assigns (\<lambda>s. (Return (), s\<lparr>com := c\<rparr>)) [] []"
  by (rule assigns_none) auto

lemma assigns_set_remote: "assigns (set_remote on) [] []"
proof (rule assigns_pointwise)
  fix s :: "'a cs1000"
  let ?on = "block [com_write ''RMT,1\<newline>'', discard com_readline,
                 (\<lambda>s. (Return (), s\<lparr>remote := True\<rparr>))] :: (unit, 'a) action"
  let ?off = "block [com_write ''RMT,0\<newline>'',
                 (\<lambda>s. (Return (), s\<lparr>remote := False\<rparr>)),
                 (\<lambda>s. (Return (), s\<lparr>com := Some Serial_unopened\<rparr>))] :: (unit, 'a) action"
  have "assigns ?on ([] @ [] @ []) ([] @ [] @ [])"
    by (rule assigns_block_single assigns_block_Cons assigns_com_write assigns_discard
          assigns_com_readline assigns_upd_remote)+
  then have on: "assigns ?on [] []" by simp
  have "assigns ?off ([] @ [] @ []) ([] @ [] @ [])"
    by (rule assigns_block_single assigns_block_Cons assigns_com_write assigns_upd_remote
          assigns_upd_com)+
  then have off: "assigns ?off [] []" by simp
  have r: "assigns (ret () :: (unit, 'a) action) [] []" by (rule assigns_ret)
  have "set_remote on s = ?on s \<or> set_remote on s = ?off s \<or> set_remote on s = ret () s"
    by (simp add: set_remote_def)
  with on off r show "\<exists>a. assigns a [] [] \<and> set_remote on s = a s" by blast
qed simp

lemma assigns_ensure_remote:
  "assigns (\<lambda>s. if \<not> remote s then set_remote True s else ret () s) [] []"
proof (rule assigns_pointwise)
  fix s :: "'a cs1000"
  show "\<exists>a. assigns a [] [] \<and> (if \<not> remote s then set_remote True s else ret () s) = a s"
    using assigns_set_remote[of True] assigns_ret[of "()"] by (cases "remote s") auto
qed simp

lemma assigns_measure_op:
  "assigns (measure_op pf) (scalar_keys @ [''spectrum'']) scalar_keys"
proof -
  have "assigns (measure_op pf)
     ([] @ [] @ [] @ [] @ [] @ [] @ [] @ ([] @ block_keys ''2'') @ [] @ [] @ [] @
      ([] @ block_keys ''10'') @ [] @ [] @ ([] @ [''spectrum'']))
     ([] @ [] @ [] @ [] @ [] @ [] @ [] @ ([] @ block_keys ''2'') @ [] @ [] @ [] @
      ([] @ block_keys ''10'') @ [] @ [] @ ([] @ []))"
    unfolding measure_op_def
    by (rule assigns_block_single assigns_block_Cons assigns_ensure_remote assigns_com_write
          assigns_discard assigns_com_readline assigns_bnd assigns_store_block
          assigns_spectral_loop assigns_setitem)+
  then show ?thesis by (simp add: scalar_keys_def)
qed

subsection \<open>Calls that return\<close>

lemma inbox_of_simps [simp]:
  "inbox_of (s\<lparr>results := m\<rparr>) = inbox_of s"
  "inbox_of (s\<lparr>remote := b\<rparr>) = inbox_of s"
  "inbox_of (s\<lparr>wire := w\<rparr>) = inbox_of s"
  by (simp_all add: inbox_of_def)

lemma all_less_9: "(\<forall>i<9. P (i::nat)) \<longleftrightarrow> P 0 \<and> P 1 \<and> P 2 \<and> P 3 \<and> P 4 \<and> P 5 \<and> P 6 \<and> P 7 \<and> P 8"
  by (simp add: numeral_eq_Suc All_less_Suc conj_ac)

lemma block_ok_iff: "block_ok pf ans \<longleftrightarrow> 10 \<le> length ans \<and> (\<forall>i<9. pf (ans ! i) \<noteq> None)"
  by (auto simp: block_ok_def list_all_length)

lemma store_block_ReturnD:
  assumes "store_block pf sfx ans s = (Return (), s')"
  shows "block_ok pf ans" "s' = s\<lparr>results := results s ++ block_map pf sfx ans\<rparr>"
proof -
  from assms have *: "10 \<le> length ans \<and> pf (ans ! 0) \<noteq> None \<and> pf (ans ! 1) \<noteq> None \<and> pf (ans ! 2) \<noteq> None \<and>
     pf (ans ! 3) \<noteq> None \<and> pf (ans ! 4) \<noteq> None \<and> pf (ans ! 5) \<noteq> None \<and> pf (ans ! 6) \<noteq> None \<and>
     pf (ans ! 7) \<noteq> None \<and> pf (ans ! 8) \<noteq> None \<and> s' = s\<lparr>results := results s ++ block_map pf sfx ans\<rparr>"
    unfolding store_block_def block_Cons_Return_iff block_Nil_Return_iff
      store_float_Return_iff store_raw_Return_iff
    by (auto simp: block_map_def)
  then show "block_ok pf ans" by (simp add: block_ok_iff all_less_9)
  from * show "s' = s\<lparr>results := results s ++ block_map pf sfx ans\<rparr>" by simp
qed

lemma append_floats_ReturnD:
  assumes "append_floats pf as acc s = (Return sp, s')"
  shows "s' = s \<and> map Some sp = map Some acc @ map (\<lambda>a. pf (strip a)) as"
  using assms
proof (induction as arbitrary: acc s)
  case Nil
  then show ?case by (simp add: ret_def)
next
  case (Cons a as)
  from Cons.prems obtain x s1 where
    1: "py_float pf (strip a) s = (Return x, s1)" and
    2: "append_floats pf as (acc @ [x]) s1 = (Return sp, s')"
    by (auto simp: bnd_Return_iff)
  from 1 have "pf (strip a) = Some x" "s1 = s"
    by (auto simp: py_float_def ret_def raise_def split: option.splits)
  with Cons.IH[OF 2] show ?case by simp
qed

lemma spectral_loop_ReturnD:
  assumes "spectral_loop pf n acc s = (Return sp, s')"
  shows "\<exists>ls. length ls = n \<and> inbox_of s = map Line ls @ inbox_of s' \<and>
     map Some sp = map Some acc @ map (\<lambda>a. pf (strip a)) (concat (map split_comma ls)) \<and>
     results s' = results s \<and> remote s' = remote s"
  using assms
proof (induction n arbitrary: acc s)
  case 0
  then show ?case by (simp add: ret_def)
next
  case (Suc n)
  from Suc.prems obtain s1 l s2 acc' s3 where
    w: "com_write ''&\<newline>'' s = (Return (), s1)" and
    r: "com_readline s1 = (Return l, s2)" and
    a: "append_floats pf (split_comma l) acc s2 = (Return acc', s3)" and
    rest: "spectral_loop pf n acc' s3 = (Return sp, s')"
    by (auto simp: bnd_Return_iff)
  from append_floats_ReturnD[OF a] have s3: "s3 = s2"
    and acc': "map Some acc' = map Some acc @ map (\<lambda>a. pf (strip a)) (split_comma l)" by simp_all
  from Suc.IH[OF rest] obtain ls where ls: "length ls = n" "inbox_of s3 = map Line ls @ inbox_of s'"
    "map Some sp = map Some acc' @ map (\<lambda>a. pf (strip a)) (concat (map split_comma ls))"
    "results s' = results s3" "remote s' = remote s3" by blast
  show ?case
    using com_write_ReturnD(1-3)[OF w] com_readline_ReturnD(1-3)[OF r] s3 acc' ls
    by (intro exI[of _ "l # ls"]) simp
qed

lemma discard_readline_ReturnD:
  assumes "discard com_readline s = (Return (), s')"
  shows "\<exists>l. inbox_of s = Line l # inbox_of s' \<and> results s' = results s \<and> remote s' = remote s"
  using assms com_readline_ReturnD(1-3) by (fastforce simp: discard_Return_iff)

lemma read_block_ReturnD:
  assumes "bnd com_readline (\<lambda>ans. store_block pf sfx (split_comma ans)) s = (Return (), s')"
  shows "\<exists>l. inbox_of s = Line l # inbox_of s' \<and> block_ok pf (split_comma l) \<and>
     results s' = results s ++ block_map pf sfx (split_comma l) \<and> remote s' = remote s"
proof -
  from assms obtain l s1 where r: "com_readline s = (Return l, s1)"
    and b: "store_block pf sfx (split_comma l) s1 = (Return (), s')"
    by (auto simp: bnd_Return_iff)
  from store_block_ReturnD[OF b] have ok: "block_ok pf (split_comma l)"
    and s': "s' = s1\<lparr>results := results s1 ++ block_map pf sfx (split_comma l)\<rparr>" by simp_all
  from s' have "inbox_of s' = inbox_of s1" "results s' = results s1 ++ block_map pf sfx (split_comma l)"
    "remote s' = remote s1" by simp_all
  with com_readline_ReturnD(1-3)[OF r] ok show ?thesis by (intro exI[of _ l]) simp
qed

lemma ensure_remote_ReturnD:
  assumes "(if \<not> remote s then set_remote True s else ret () s) = (Return (), s')"
  shows "\<exists>pre. inbox_of s = map Line pre @ inbox_of s' \<and> length pre = (if remote s then 0 else 1) \<and>
     results s' = results s \<and> remote s'"
proof (cases "remote s")
  case True
  with assms have "s' = s" by (simp add: ret_def)
  with True show ?thesis by simp
next
  case False
  with assms obtain s1 s2 where w: "com_write ''RMT,1\<newline>'' s = (Return (), s1)"
    and r: "discard com_readline s1 = (Return (), s2)" and s': "s' = s2\<lparr>remote := True\<rparr>"
    by (auto simp: set_remote_def block_Cons_Return_iff block_Nil_Return_iff simp del: block.simps)
  from discard_readline_ReturnD[OF r] obtain l where
    "inbox_of s1 = Line l # inbox_of s2" "results s2 = results s1" by blast
  with com_write_ReturnD(1-3)[OF w] s' False show ?thesis
    by (intro exI[of _ "[l]"]) simp
qed

lemma read_spectrum_ReturnD:
  assumes "bnd (spectral_loop pf n []) (\<lambda>spectrum. setitem ''spectrum'' (Array (with_wavelengths spectrum))) s
     = (Return (), s')"
  shows "\<exists>sls sp. inbox_of s = map Line sls @ inbox_of s' \<and> length sls = n \<and>
     map Some sp = map (\<lambda>a. pf (strip a)) (concat (map split_comma sls)) \<and>
     results s' = (results s)(''spectrum'' \<mapsto> Array (with_wavelengths sp)) \<and> remote s' = remote s"
proof -
  from assms obtain sp s1 where l: "spectral_loop pf n [] s = (Return sp, s1)"
    and s': "s' = s1\<lparr>results := (results s1)(''spectrum'' \<mapsto> Array (with_wavelengths sp))\<rparr>"
    by (auto simp: bnd_Return_iff setitem_def)
  from spectral_loop_ReturnD[OF l] obtain ls where "length ls = n"
    "inbox_of s = map Line ls @ inbox_of s1"
    "map Some sp = map Some [] @ map (\<lambda>a. pf (strip a)) (concat (map split_comma ls))"
    "results s1 = results s" "remote s1 = remote s" by blast
  with s' show ?thesis by (intro exI[of _ ls] exI[of _ sp]) simp
qed

lemma measure_op_ReturnE:
  assumes "measure_op pf s = (Return (), s')"
  obtains pre m1 m2 b1 d2 b2 d10 b3 sls sp where
    "inbox_of s = map Line (pre @ [m1, m2, b1, d2, b2, d10, b3] @ sls) @ inbox_of s'"
    "length pre = (if remote s then 0 else 1)" "length sls = 15"
    "block_ok pf (split_comma d2)" "block_ok pf (split_comma d10)"
    "map Some sp = map (\<lambda>a. pf (strip a)) (concat (map split_comma sls))"
    "results s' = (results s ++ block_map pf ''2'' (split_comma d2)
        ++ block_map pf ''10'' (split_comma d10))(''spectrum'' \<mapsto> Array (with_wavelengths sp))"
    "remote s'"
proof -
  from assms obtain s1 s2 s3 s4 s5 s6 s7 s8 s9 s10 s11 s12 s13 s14 where
    st: "(if \<not> remote s then set_remote True s else ret () s) = (Return (), s1)"
      "com_write ''MES,1\<newline>'' s1 = (Return (), s2)"
      "discard com_readline s2 = (Return (), s3)"
      "discard com_readline s3 = (Return (), s4)"
      "com_write ''BDR,1,0,0\<newline>'' s4 = (Return (), s5)"
      "discard com_readline s5 = (Return (), s6)"
      "com_write ''&\<newline>'' s6 = (Return (), s7)"
      "bnd com_readline (\<lambda>ans. store_block pf ''2'' (split_comma ans)) s7 = (Return (), s8)"
      "com_write ''BDR,1,1,0\<newline>'' s8 = (Return (), s9)"
      "discard com_readline s9 = (Return (), s10)"
      "com_write ''&\<newline>'' s10 = (Return (), s11)"
      "bnd com_readline (\<lambda>ans. store_block pf ''10'' (split_comma ans)) s11 = (Return (), s12)"
      "com_write ''BDR,0,0,0\<newline>'' s12 = (Return (), s13)"
      "discard com_readline s13 = (Return (), s14)"
      "bnd (spectral_loop pf 15 [])
         (\<lambda>spectrum. setitem ''spectrum'' (Array (with_wavelengths spectrum))) s14 = (Return (), s')"
    unfolding measure_op_def block_Cons_Return_iff block_Nil_Return_iff by blast
  from ensure_remote_ReturnD[OF st(1)] obtain pre where
    1: "inbox_of s = map Line pre @ inbox_of s1" "length pre = (if remote s then 0 else 1)"
       "results s1 = results s" "remote s1" by blast
  note 2 = com_write_ReturnD(1-3)[OF st(2)]
  from discard_readline_ReturnD[OF st(3)] obtain m1 where
    3: "inbox_of s2 = Line m1 # inbox_of s3" "results s3 = results s2" "remote s3 = remote s2" by blast
  from discard_readline_ReturnD[OF st(4)] obtain m2 where
    4: "inbox_of s3 = Line m2 # inbox_of s4" "results s4 = results s3" "remote s4 = remote s3" by blast
  note 5 = com_write_ReturnD(1-3)[OF st(5)]
  from discard_readline_ReturnD[OF st(6)] obtain b1 where
    6: "inbox_of s5 = Line b1 # inbox_of s6" "results s6 = results s5" "remote s6 = remote s5" by blast
  note 7 = com_write_ReturnD(1-3)[OF st(7)]
  from read_block_ReturnD[OF st(8)] obtain d2 where
    8: "inbox_of s7 = Line d2 # inbox_of s8" "block_ok pf (split_comma d2)"
       "results s8 = results s7 ++ block_map pf ''2'' (split_comma d2)" "remote s8 = remote s7" by blast
  note 9 = com_write_ReturnD(1-3)[OF st(9)]
  from discard_readline_ReturnD[OF st(10)] obtain b2 where
    10: "inbox_of s9 = Line b2 # inbox_of s10" "results s10 = results s9" "remote s10 = remote s9" by blast
  note 11 = com_write_ReturnD(1-3)[OF st(11)]
  from read_block_ReturnD[OF st(12)] obtain d10 where
    12: "inbox_of s11 = Line d10 # inbox_of s12" "block_ok pf (split_comma d10)"
       "results s12 = results s11 ++ block_map pf ''10'' (split_comma d10)" "remote s12 = remote s11" by blast
  note 13 = com_write_ReturnD(1-3)[OF st(13)]
  from discard_readline_ReturnD[OF st(14)] obtain b3 where
    14: "inbox_of s13 = Line b3 # inbox_of s14" "results s14 = results s13" "remote s14 = remote s13" by blast
  from read_spectrum_ReturnD[OF st(15)] obtain sls sp where
    15: "inbox_of s14 = map Line sls @ inbox_of s'" "length sls = 15"
       "map Some sp = map (\<lambda>a. pf (strip a)) (concat (map split_comma sls))"
       "results s' = (results s14)(''spectrum'' \<mapsto> Array (with_wavelengths sp))" "remote s' = remote s14"
    by blast
  have inbox: "inbox_of s = map Line (pre @ [m1, m2, b1, d2, b2, d10, b3] @ sls) @ inbox_of s'"
    using 1(1) 2(1) 3(1) 4(1) 5(1) 6(1) 7(1) 8(1) 9(1) 10(1) 11(1) 12(1) 13(1) 14(1) 15(1) by simp
  have res: "results s' = (results s ++ block_map pf ''2'' (split_comma d2)
        ++ block_map pf ''10'' (split_comma d10))(''spectrum'' \<mapsto> Array (with_wavelengths sp))"
    using 1(3) 2(2) 3(2) 4(2) 5(2) 6(2) 7(2) 8(3) 9(2) 10(2) 11(2) 12(3) 13(2) 14(2) 15(4) by simp
  have rem: "remote s'"
    using 1(4) 2(3) 3(3) 4(3) 5(3) 6(3) 7(3) 8(4) 9(3) 10(3) 11(3) 12(4) 13(3) 14(3) 15(5) by simp
  show ?thesis
    by (rule that[OF inbox 1(2) 15(2) 8(2) 12(2) 15(3) res rem])
qed

subsection \<open>Calls on well-formed replies\<close>

lemma feedsI:
  assumes "\<And>s p rest. remote s = r \<Longrightarrow> com s = Some p \<Longrightarrow> is_open p \<Longrightarrow> wscript p = [] \<Longrightarrow>
        inbox p = map Line ls @ rest \<Longrightarrow>
        (\<exists>x s'. a s = (Return x, s') \<and> Q x \<and> com s' = Some (p\<lparr>inbox := rest\<rparr>) \<and> remote s' = r')"
  shows "feeds r a ls Q r'"
  unfolding feeds_def using assms by blast

lemma feedsD:
  assumes "feeds r a ls Q r'" "remote s = r" "com s = Some p" "is_open p" "wscript p = []"
    "inbox p = map Line ls @ rest"
  obtains x s' where "a s = (Return x, s')" "Q x" "com s' = Some (p\<lparr>inbox := rest\<rparr>)" "remote s' = r'"
  using assms unfolding feeds_def by blast

lemma feeds_bnd:
  fixes m :: "('a, 'f) action"
  assumes m: "feeds r m ls1 Q1 r1" and f: "\<And>x. Q1 x \<Longrightarrow> feeds r1 (f x) ls2 Q2 r2"
  shows "feeds r (bnd m f) (ls1 @ ls2) Q2 r2"
proof (rule feedsI)
  fix s :: "'f cs1000" and p rest
  assume a: "remote s = r" "com s = Some p" "is_open p" "wscript p = []"
    "inbox p = map Line (ls1 @ ls2) @ rest"
  from a(5) have i1: "inbox p = map Line ls1 @ (map Line ls2 @ rest)" by simp
  from feedsD[OF m a(1-4) i1] obtain x s1 where
    1: "m s = (Return x, s1)" "Q1 x" "com s1 = Some (p\<lparr>inbox := map Line ls2 @ rest\<rparr>)" "remote s1 = r1"
    by blast
  let ?p = "p\<lparr>inbox := map Line ls2 @ rest\<rparr>"
  have p: "is_open ?p" "wscript ?p = []" "inbox ?p = map Line ls2 @ rest" using a by simp_all
  from feedsD[OF f[OF 1(2)] 1(4) 1(3) p] obtain y s2 where
    2: "f x s1 = (Return y, s2)" "Q2 y" "com s2 = Some (?p\<lparr>inbox := rest\<rparr>)" "remote s2 = r2"
    by blast
  from 1(1) 2(1) have "bnd m f s = (Return y, s2)" by (simp add: bnd_def)
  with 2 show "\<exists>x s'. bnd m f s = (Return x, s') \<and> Q2 x \<and> com s' = Some (p\<lparr>inbox := rest\<rparr>) \<and> remote s' = r2"
    by (intro exI[of _ y] exI[of _ s2]) simp
qed

lemma feeds_ret: "Q x \<Longrightarrow> feeds r (ret x) [] Q r"
  by (rule feedsI) (simp add: ret_def)

lemma feeds_com_write: "feeds r (com_write b) [] (\<lambda>_. True) r"
  by (rule feedsI) (simp add: com_write_def)

lemma feeds_com_readline: "feeds r com_readline [l] (\<lambda>x. x = l) r"
  by (rule feedsI) (simp add: com_readline_def)

lemma feeds_discard: "feeds r m ls Q r' \<Longrightarrow> feeds r (discard m) ls (\<lambda>_. True) r'"
  using feeds_bnd[of r m ls Q r' "\<lambda>_. ret ()" "[]" "\<lambda>_. True" r']
  by (simp add: discard_def feeds_ret)

lemma feeds_block_Nil: "feeds r (block []) [] (\<lambda>_. True) r"
  by (simp add: feeds_ret)

lemma feeds_block_Cons:
  "feeds r a ls1 Q r1 \<Longrightarrow> feeds r1 (block as) ls2 (\<lambda>_. True) r2 \<Longrightarrow>
   feeds r (block (a # as)) (ls1 @ ls2) (\<lambda>_. True) r2"
  by (simp add: feeds_bnd)

lemma feeds_upd_remote: "feeds r (\<lambda>s. (Return (), s\<lparr>remote := b\<rparr>)) [] (\<lambda>_. True) b"
  by (rule feedsI) simp

lemma feeds_only_results:
  fixes a :: "('a, 'f) action"
  assumes "only_results a" "\<And>s. \<exists>x s'. a s = (Return x, s') \<and> Q x"
  shows "feeds r a [] Q r"
proof (rule feedsI)
  fix s :: "'f cs1000" and p rest
  assume a: "remote s = r" "com s = Some p" "inbox p = map Line [] @ rest"
  from assms(2) obtain x s' where x: "a s = (Return x, s')" "Q x" by blast
  from only_resultsD[OF assms(1) x(1)] a x
  show "\<exists>x s'. a s = (Return x, s') \<and> Q x \<and> com s' = Some (p\<lparr>inbox := rest\<rparr>) \<and> remote s' = r"
    by (intro exI[of _ x] exI[of _ s']) simp
qed

lemma store_float_returns:
  "i < length ans \<Longrightarrow> pf (ans ! i) \<noteq> None \<Longrightarrow> \<exists>s'. store_float pf k ans i s = (Return (), s')"
  by (auto simp: store_float_Return_iff)

lemma store_raw_returns:
  "i < length ans \<Longrightarrow> \<exists>s'. store_raw k ans i s = (Return (), s')"
  by (simp add: store_raw_Return_iff)

lemma block_returns:
  "(\<And>a s. a \<in> set as \<Longrightarrow> \<exists>s'. a s = (Return (), s')) \<Longrightarrow> \<exists>s'. block as s = (Return (), s')"
proof (induction as arbitrary: s)
  case Nil
  show ?case by (simp add: ret_def)
next
  case (Cons a as)
  from Cons.prems[of a s] obtain s1 where 1: "a s = (Return (), s1)" by auto
  from Cons.IH[of s1] Cons.prems obtain s2 where "block as s1 = (Return (), s2)" by auto
  with 1 show ?case by (auto simp: bnd_def)
qed

lemma store_block_returns:
  assumes "block_ok pf ans"
  shows "\<exists>s'. store_block pf sfx ans s = (Return (), s')"
proof -
  from assms have "10 \<le> length ans" "pf (ans ! 0) \<noteq> None" "pf (ans ! 1) \<noteq> None"
    "pf (ans ! 2) \<noteq> None" "pf (ans ! 3) \<noteq> None" "pf (ans ! 4) \<noteq> None" "pf (ans ! 5) \<noteq> None"
    "pf (ans ! 6) \<noteq> None" "pf (ans ! 7) \<noteq> None" "pf (ans ! 8) \<noteq> None"
    by (simp_all add: block_ok_iff all_less_9)
  then show ?thesis
    unfolding store_block_def
    by (intro block_returns) (auto intro!: store_float_returns store_raw_returns)
qed

lemma append_floats_returns:
  "list_all (\<lambda>a. pf (strip a) \<noteq> None) as \<Longrightarrow> \<exists>sp s'. append_floats pf as acc s = (Return sp, s')"
proof (induction as arbitrary: acc)
  case Nil
  show ?case by (simp add: ret_def)
next
  case (Cons a as)
  then obtain x where x: "pf (strip a) = Some x" by auto
  from Cons obtain sp s' where "append_floats pf as (acc @ [x]) s = (Return sp, s')" by fastforce
  with x show ?case by (auto simp: bnd_def py_float_def ret_def)
qed

lemma feeds_store_block:
  "block_ok pf ans \<Longrightarrow> feeds r (store_block pf sfx ans) [] (\<lambda>_. True) r"
  by (rule feeds_only_results[OF only_results_store_block]) (use store_block_returns in fastforce)

lemma feeds_append_floats:
  "list_all (\<lambda>a. pf (strip a) \<noteq> None) as \<Longrightarrow> feeds r (append_floats pf as acc) [] (\<lambda>_. True) r"
  by (rule feeds_only_results[OF only_results_append_floats]) (use append_floats_returns in fastforce)

lemma feeds_setitem: "feeds r (setitem k v) [] (\<lambda>_. True) r"
  by (rule feeds_only_results[OF only_results_setitem]) (simp add: setitem_def)

lemma feeds_read_block:
  assumes "block_ok pf (split_comma l)"
  shows "feeds r (bnd com_readline (\<lambda>ans. store_block pf sfx (split_comma ans))) [l] (\<lambda>_. True) r"
proof -
  have "feeds r (bnd com_readline (\<lambda>ans. store_block pf sfx (split_comma ans))) ([l] @ []) (\<lambda>_. True) r"
    by (rule feeds_bnd[OF feeds_com_readline]) (simp add: feeds_store_block assms)
  then show ?thesis by simp
qed

lemma feeds_spectral_loop:
  assumes "list_all (\<lambda>a. pf (strip a) \<noteq> None) (concat (map split_comma ls))"
  shows "feeds r (spectral_loop pf (length ls) acc) ls (\<lambda>_. True) r"
  using assms
proof (induction ls arbitrary: acc)
  case Nil
  show ?case by (simp add: feeds_ret)
next
  case (Cons l ls)
  then have l: "list_all (\<lambda>a. pf (strip a) \<noteq> None) (split_comma l)"
    and ls: "list_all (\<lambda>a. pf (strip a) \<noteq> None) (concat (map split_comma ls))" by simp_all
  have "feeds r (bnd (append_floats pf (split_comma l) acc) (spectral_loop pf (length ls)))
          ([] @ ls) (\<lambda>_. True) r"
    by (rule feeds_bnd[OF feeds_append_floats[OF l]]) (rule Cons.IH[OF ls])
  then have inner: "feeds r (bnd (append_floats pf (split_comma l) acc) (spectral_loop pf (length ls)))
          ls (\<lambda>_. True) r" by simp
  have "feeds r (bnd com_readline (\<lambda>ans.
          bnd (append_floats pf (split_comma ans) acc) (spectral_loop pf (length ls))))
          ([l] @ ls) (\<lambda>_. True) r"
    by (rule feeds_bnd[OF feeds_com_readline]) (simp add: inner)
  then have "feeds r (spectral_loop pf (Suc (length ls)) acc) ([] @ [l] @ ls) (\<lambda>_. True) r"
    unfolding spectral_loop.simps by (intro feeds_bnd[OF feeds_com_write])
  then show ?case by simp
qed

lemma feeds_cong: "feeds r a ls Q r' \<Longrightarrow> (\<And>s. remote s = r \<Longrightarrow> b s = a s) \<Longrightarrow> feeds r b ls Q r'"
  unfolding feeds_def by metis

lemma feeds_ensure_remote:
  assumes "length pre = (if r then 0 else 1)"
  shows "feeds r (\<lambda>s. if \<not> remote s then set_remote True s else ret () s) pre (\<lambda>_. True) True"
proof (cases r)
  case True
  with assms have "pre = []" by simp
  moreover have "feeds True (ret ()) [] (\<lambda>_. True) True" by (simp add: feeds_ret)
  then have "feeds True (\<lambda>s. if \<not> remote s then set_remote True s else ret () s) [] (\<lambda>_. True) True"
    by (rule feeds_cong) simp
  ultimately show ?thesis using True by simp
next
  case False
  with assms obtain l where pre: "pre = [l]" by (cases pre) auto
  let ?b = "block [com_write ''RMT,1\<newline>'', discard com_readline,
                 (\<lambda>s. (Return (), s\<lparr>remote := True\<rparr>))]"
  have "feeds False ?b ([] @ [l] @ [] @ []) (\<lambda>_. True) True"
    by (rule feeds_block_Cons feeds_com_write feeds_discard feeds_com_readline feeds_upd_remote
          feeds_block_Nil)+
  then have "feeds False ?b [l] (\<lambda>_. True) True" by simp
  then have "feeds False (\<lambda>s. if \<not> remote s then set_remote True s else ret () s) [l] (\<lambda>_. True) True"
    by (rule feeds_cong) (simp add: set_remote_def)
  with False pre show ?thesis by simp
qed

lemma feeds_measure_op:
  assumes "length pre = (if r then 0 else 1)"
    "block_ok pf (split_comma d2)" "block_ok pf (split_comma d10)"
    "list_all (\<lambda>a. pf (strip a) \<noteq> None) (concat (map split_comma sls))" "length sls = 15"
  shows "feeds r (measure_op pf) (pre @ [m1, m2, b1, d2, b2, d10, b3] @ sls) (\<lambda>_. True) True"
proof -
  note sl = feeds_spectral_loop[OF assms(4), of True "[]", unfolded assms(5)]
  have last: "feeds True (bnd (spectral_loop pf 15 [])
              (\<lambda>spectrum. setitem ''spectrum'' (Array (with_wavelengths spectrum)))) (sls @ []) (\<lambda>_. True) True"
    by (rule feeds_bnd[OF sl]) (rule feeds_setitem)
  have "feeds r (measure_op pf)
     (pre @ [] @ [m1] @ [m2] @ [] @ [b1] @ [] @ [d2] @ [] @ [b2] @ [] @ [d10] @ [] @ [b3] @ (sls @ []) @ [])
     (\<lambda>_. True) True"
    unfolding measure_op_def
    by (rule feeds_block_Cons feeds_block_Nil feeds_ensure_remote[OF assms(1)] feeds_com_write
          feeds_discard feeds_com_readline feeds_read_block[OF assms(2)] feeds_read_block[OF assms(3)]
          last)+
  then show ?thesis by simp
qed

lemma measure_op_runs:
  assumes "com s = Some p" "is_open p" "wscript p = []"
    "inbox p = map Line (pre @ [m1, m2, b1, d2, b2, d10, b3] @ sls) @ rest"
    "length pre = (if remote s then 0 else 1)" "length sls = 15"
    "block_ok pf (split_comma d2)" "block_ok pf (split_comma d10)"
    "list_all (\<lambda>a. pf (strip a) \<noteq> None) (concat (map split_comma sls))"
  shows "\<exists>s'. measure_op pf s = (Return (), s') \<and> com s' = Some (p\<lparr>inbox := rest\<rparr>)"
proof -
  have f: "feeds (remote s) (measure_op pf) (pre @ [m1, m2, b1, d2, b2, d10, b3] @ sls) (\<lambda>_. True) True"
    by (rule feeds_measure_op[OF assms(5) assms(7) assms(8) assms(9) assms(6)])
  obtain x s' where "measure_op pf s = (Return x, s')" "com s' = Some (p\<lparr>inbox := rest\<rparr>)"
    by (rule feedsD[OF f refl assms(1) assms(2) assms(3) assms(4)])
  then show ?thesis by (cases x) simp
qed

subsection \<open>The example run\<close>

lemma example_block2_ok:
  "block_ok decimal (split_comma ''12.3,45.6,1.1,2.2,3.3,0.33,0.34,0.1,0.2,6500'')"
  by code_simp

lemma example_block10_ok:
  "block_ok decimal (split_comma ''12.4,45.7,1.2,2.3,3.4,0.31,0.32,0.3,0.4,6400\<newline>'')"
  by code_simp

lemma example_line_ok:
  "list_all (\<lambda>a. decimal (strip a) \<noteq> None) (split_comma ''1,2,3,4,5,6,7,8,9,10\<newline>'')"
  by code_simp

lemma example_spectrum_ok:
  "list_all (\<lambda>a. decimal (strip a) \<noteq> None)
     (concat (map split_comma (replicate 15 ''1,2,3,4,5,6,7,8,9,10\<newline>'')))"
  using example_line_ok by (simp add: list_all_iff)

lemma example_inbox:
  "inbox example_port = map Line ([''OK00\<newline>''] @
      [''OK00\<newline>'', ''OK00\<newline>'', ''OK00\<newline>'',
       ''12.3,45.6,1.1,2.2,3.3,0.33,0.34,0.1,0.2,6500'', ''OK00\<newline>'',
       ''12.4,45.7,1.2,2.3,3.4,0.31,0.32,0.3,0.4,6400\<newline>'', ''OK00\<newline>'']
      @ replicate 15 ''1,2,3,4,5,6,7,8,9,10\<newline>'') @ []"
  by (simp add: example_port_def example_replies_def)

lemma example_run: "measure_op decimal example_state = (Return (), example_done)"
proof -
  have c: "com example_state = Some example_port" "is_open example_port" "wscript example_port = []"
    "length [''OK00\<newline>''] = (if remote example_state then 0 else 1)"
    "length (replicate 15 ''1,2,3,4,5,6,7,8,9,10\<newline>'') = 15"
    by (simp_all add: example_state_def example_port_def)
  from measure_op_runs[OF c(1) c(2) c(3) example_inbox c(4) c(5)
      example_block2_ok example_block10_ok example_spectrum_ok]
  obtain s' where "measure_op decimal example_state = (Return (), s')" by (elim exE conjE)
  then show ?thesis by (simp add: example_done_def)
qed

lemma block_two_Return:
  "a s = (Return (), s1) \<Longrightarrow> b s1 = (Return (), s2) \<Longrightarrow> block [a, b] s = (Return (), s2)"
  by (simp add: bnd_def ret_def)

subsection \<open>The stored data blocks\<close>

lemma dom_block_map: "dom (block_map pf sfx a) = set (block_keys sfx)"
  by (simp add: block_map_def block_keys_def insert_commute)

lemma block_keys_disjoint:
  "set (block_keys ''2'') \<inter> set (block_keys ''10'') = {}"
  "''spectrum'' \<notin> set (block_keys ''2'')" "''spectrum'' \<notin> set (block_keys ''10'')"
  by (simp_all add: block_keys_def)

lemma lookup_block2:
  assumes "k \<in> set (block_keys ''2'')"
  shows "((m ++ block_map pf ''2'' a ++ block_map pf ''10'' b)(''spectrum'' \<mapsto> v)) k
     = block_map pf ''2'' a k"
proof -
  from assms block_keys_disjoint have 1: "k \<noteq> ''spectrum''" "k \<notin> dom (block_map pf ''10'' b)"
    "k \<in> dom (block_map pf ''2'' a)" by (auto simp: dom_block_map)
  show ?thesis using 1 by (simp add: map_add_dom_app_simps)
qed

lemma lookup_block10:
  assumes "k \<in> set (block_keys ''10'')"
  shows "((m ++ block_map pf ''2'' a ++ block_map pf ''10'' b)(''spectrum'' \<mapsto> v)) k
     = block_map pf ''10'' b k"
proof -
  from assms block_keys_disjoint have 1: "k \<noteq> ''spectrum''" "k \<in> dom (block_map pf ''10'' b)"
    by (auto simp: dom_block_map)
  show ?thesis using 1 by (simp add: map_add_dom_app_simps)
qed

lemma spec_block_of_block_map:
  assumes "block_ok pf fs" "\<And>k. k \<in> set (block_keys sfx) \<Longrightarrow> m k = block_map pf sfx fs k"
  shows "spec_block pf sfx fs m"
proof -
  from assms(1) have ok: "10 \<le> length fs" "\<forall>i<9. pf (fs ! i) \<noteq> None"
    by (simp_all add: block_ok_iff)
  have keys: "\<forall>i<9. float_names ! i @ sfx \<in> set (block_keys sfx)"
    "''T'' @ sfx \<in> set (block_keys sfx)" "''Duv'' @ sfx \<in> set (block_keys sfx)"
    by (simp_all add: all_less_9 float_names_def block_keys_def)
  have vals: "\<forall>i<9. block_map pf sfx fs (float_names ! i @ sfx) = Some (Float (the (pf (fs ! i))))"
    "block_map pf sfx fs (''T'' @ sfx) = Some (Str (fs ! 9))"
    "block_map pf sfx fs (''Duv'' @ sfx) = Some (Str (fs ! 8))"
    by (simp_all add: all_less_9 float_names_def block_map_def)
  show ?thesis
    unfolding spec_block_def
  proof (intro conjI ballI)
    show "10 \<le> length fs" by (rule ok)
  next
    fix i :: nat assume "i \<in> {0..<9}"
    then have i: "i < 9" by simp
    with ok(2) obtain x where x: "pf (fs ! i) = Some x" by auto
    then show "pf (fs ! i) \<noteq> None" by simp
    from i keys(1) vals(1) assms(2) x
    show "m (float_names ! i @ sfx) = map_option Float (pf (fs ! i))" by simp
  next
    show "m (''T'' @ sfx) = Some (Str (fs ! 9))" using keys(2) vals(2) assms(2) by simp
  next
    show "m (''Duv'' @ sfx) = Some (Str (fs ! 8))" using keys(3) vals(3) assms(2) by simp
  qed
qed

lemma nth_map_Line_append:
  "j < length xs \<Longrightarrow> (map Line (pre @ xs) @ rest) ! (j + length pre) = Line (xs ! j)"
  by (simp add: nth_append)

lemma inbox_of_Some: "com s = Some p \<Longrightarrow> inbox_of s = inbox p"
  by (simp add: inbox_of_def)

lemma measure_op_data_lines:
  assumes "measure_op pf s = (Return (), s')" "com s = Some p"
    "inbox p ! (3 + (if remote s then 0 else 1)) = Line l2"
    "inbox p ! (5 + (if remote s then 0 else 1)) = Line l10"
  shows "block_ok pf (split_comma l2)" "block_ok pf (split_comma l10)"
    "\<exists>v. results s' = (results s ++ block_map pf ''2'' (split_comma l2)
        ++ block_map pf ''10'' (split_comma l10))(''spectrum'' \<mapsto> v)"
proof -
  from assms(1) obtain pre m1 m2 b1 d2 b2 d10 b3 sls sp where
    r: "inbox_of s = map Line (pre @ [m1, m2, b1, d2, b2, d10, b3] @ sls) @ inbox_of s'"
    "length pre = (if remote s then 0 else 1)"
    "block_ok pf (split_comma d2)" "block_ok pf (split_comma d10)"
    "results s' = (results s ++ block_map pf ''2'' (split_comma d2)
        ++ block_map pf ''10'' (split_comma d10))(''spectrum'' \<mapsto> Array (with_wavelengths sp))"
    by (rule measure_op_ReturnE)
  from r(1) assms(2) have i: "inbox p = map Line (pre @ ([m1, m2, b1, d2, b2, d10, b3] @ sls)) @ inbox_of s'"
    by (simp add: inbox_of_Some)
  have "inbox p ! (3 + length pre) = Line (([m1, m2, b1, d2, b2, d10, b3] @ sls) ! 3)"
    unfolding i by (rule nth_map_Line_append) simp
  with assms(3) r(2) have d2: "d2 = l2" by simp
  have "inbox p ! (5 + length pre) = Line (([m1, m2, b1, d2, b2, d10, b3] @ sls) ! 5)"
    unfolding i by (rule nth_map_Line_append) simp
  with assms(4) r(2) have d10: "d10 = l10" by simp
  from r(3) d2 show "block_ok pf (split_comma l2)" by simp
  from r(4) d10 show "block_ok pf (split_comma l10)" by simp
  from r(5) d2 d10 show "\<exists>v. results s' = (results s ++ block_map pf ''2'' (split_comma l2)
        ++ block_map pf ''10'' (split_comma l10))(''spectrum'' \<mapsto> v)" by blast
qed

lemma example_lines:
  "com example_state = Some example_port"
  "inbox example_port ! (3 + (if remote example_state then 0 else 1))
     = Line ''12.3,45.6,1.1,2.2,3.3,0.33,0.34,0.1,0.2,6500''"
  "inbox example_port ! (5 + (if remote example_state then 0 else 1))
     = Line ''12.4,45.7,1.2,2.3,3.4,0.31,0.32,0.3,0.4,6400\<newline>''"
  by (simp_all add: example_state_def example_port_def example_replies_def)

lemma example_split2:
  "split_comma ''12.3,45.6,1.1,2.2,3.3,0.33,0.34,0.1,0.2,6500''
     = [''12.3'', ''45.6'', ''1.1'', ''2.2'', ''3.3'', ''0.33'', ''0.34'', ''0.1'', ''0.2'', ''6500'']"
  by code_simp

lemma example_split10:
  "split_comma ''12.4,45.7,1.2,2.3,3.4,0.31,0.32,0.3,0.4,6400\<newline>''
     = [''12.4'', ''45.7'', ''1.2'', ''2.3'', ''3.4'', ''0.31'', ''0.32'', ''0.3'', ''0.4'', ''6400\<newline>'']"
  by code_simp

lemma example_decimals:
  "decimal ''12.3'' = Some 12.3" "decimal ''2.2'' = Some 2.2"
  by code_simp+

subsection \<open>The stored spectrum\<close>

lemma length_concat_const:
  "\<forall>l\<in>set ls. length (f l) = n \<Longrightarrow> length (concat (map f ls)) = n * length ls"
  by (induction ls) simp_all

lemma with_wavelengths_upt: "with_wavelengths sp = zip [380..<380 + length sp] sp"
proof -
  have "map (\<lambda>i. 380 + i) [0..<length sp] = map (\<lambda>i. i + 380) [0..<length sp]"
    by (simp add: add.commute)
  also have "\<dots> = [380..<length sp + 380]" by (rule map_add_upt)
  finally show ?thesis by (simp add: with_wavelengths_def add.commute)
qed

lemma measure_op_spectral_lines:
  assumes "measure_op pf s = (Return (), s')" "com s = Some p"
    "take 15 (drop (7 + (if remote s then 0 else 1)) (inbox p)) = map Line sls"
  shows "\<exists>sp. map Some sp = map (\<lambda>a. pf (strip a)) (concat (map split_comma sls))
     \<and> results s' ''spectrum'' = Some (Array (with_wavelengths sp)) \<and> length sls = 15"
proof -
  from assms(1) obtain pre m1 m2 b1 d2 b2 d10 b3 sls' sp where
    r: "inbox_of s = map Line (pre @ [m1, m2, b1, d2, b2, d10, b3] @ sls') @ inbox_of s'"
    "length pre = (if remote s then 0 else 1)" "length sls' = 15"
    "map Some sp = map (\<lambda>a. pf (strip a)) (concat (map split_comma sls'))"
    "results s' = (results s ++ block_map pf ''2'' (split_comma d2)
        ++ block_map pf ''10'' (split_comma d10))(''spectrum'' \<mapsto> Array (with_wavelengths sp))"
    by (rule measure_op_ReturnE)
  let ?head = "map Line (pre @ [m1, m2, b1, d2, b2, d10, b3])"
  from r(1) assms(2) have i: "inbox p = ?head @ (map Line sls' @ inbox_of s')"
    by (simp add: inbox_of_Some)
  from r(2) have "length ?head = 7 + (if remote s then 0 else 1)" by simp
  then have "drop (7 + (if remote s then 0 else 1)) (inbox p) = map Line sls' @ inbox_of s'"
    unfolding i by (metis append_eq_conv_conj)
  with r(3) assms(3) have "map Line sls' = map Line sls" by simp
  then have "sls' = sls" by (simp add: inj_map_eq_map inj_on_def)
  with r(3) r(4) r(5) show ?thesis by (intro exI[of _ sp]) simp
qed

lemma example_spectral_lines:
  "take 15 (drop (7 + (if remote example_state then 0 else 1)) (inbox example_port))
     = map Line (replicate 15 ''1,2,3,4,5,6,7,8,9,10\<newline>'')"
  by (simp add: example_state_def example_port_def example_replies_def)

lemma example_line_length: "length (split_comma ''1,2,3,4,5,6,7,8,9,10\<newline>'') = 10"
  by code_simp

subsection \<open>Whitespace around a field\<close>




subsection \<open>The history of every method\<close>

lemma flag_ok_off_exchange: "list_all flag_ok (off_exchange r)"
  by (simp add: off_exchange_def flag_ok_def measurement_command_def)

lemma emits_maybe_off:
  "emits r (\<lambda>s. if remote s then set_remote False s else ret () s) (off_exchange r) False"
proof (cases r)
  case True
  have "emits True (\<lambda>s. if remote s then set_remote False s else ret () s) [Sent True ''RMT,0\<newline>''] False"
    by (rule emits_cong[OF emits_set_remote_off]) simp
  with True show ?thesis by (simp add: off_exchange_def)
next
  case False
  have "emits False (ret ()) [] False" by (rule emits_ret)
  then have "emits False (\<lambda>s. if remote s then set_remote False s else ret () s) [] False"
    by (rule emits_cong) simp
  with False show ?thesis by (simp add: off_exchange_def)
qed

lemma emits_open: "emits r (\<lambda>s. case opened of Inl e \<Rightarrow> (Raise e, s) | Inr p \<Rightarrow> (Return (), s\<lparr>com := Some p\<rparr>)) [] r"
  by (rule emitsI) (auto split: sum.splits)

lemma emits_connect:
  "emits r (connect opened) (off_exchange r) False"
proof -
  have "emits r (connect opened) (off_exchange r @ [] @ []) False"
    unfolding connect_def
    by (rule emits_block_Cons emits_block_Nil emits_maybe_off emits_open)+
  then show ?thesis by simp
qed

lemma emits_disconnect:
  "emits r disconnect (off_exchange r) False"
proof -
  have "emits r disconnect (off_exchange r @ [] @ []) False"
    unfolding disconnect_def
    by (rule emits_block_Cons emits_block_Nil emits_maybe_off emits_upd_com)+
  then show ?thesis by simp
qed

lemma emits_set_remote_any:
  "\<exists>es r'. emits r (set_remote on) es r' \<and> list_all flag_ok es"
proof (cases "r = on")
  case True
  with emits_set_remote_same[of r] show ?thesis by (intro exI[of _ "[]"] exI[of _ r]) simp
next
  case False
  show ?thesis
  proof (cases on)
    case True
    with False have "r = False" by simp
    with True emits_set_remote_on show ?thesis
      by (intro exI[of _ "[Sent False ''RMT,1\<newline>'', Received]"] exI[of _ True])
         (simp add: flag_ok_def measurement_command_def)
  next
    case f: False
    with False have "r = True" by simp
    with f emits_set_remote_off show ?thesis
      by (intro exI[of _ "[Sent True ''RMT,0\<newline>'']"] exI[of _ False])
         (simp add: flag_ok_def measurement_command_def)
  qed
qed

lemma flag_ok_exchange: "list_all flag_ok (remote_exchange r @ measure_exchange)"
  by (simp add: remote_exchange_def measure_exchange_def flag_ok_def measurement_command_def
      list_all_iff)

lemma emits_exec: "\<exists>es r'. emits r (exec pf c) es r' \<and> list_all flag_ok es"
proof (cases c)
  case (Connect opened)
  with emits_connect[of r opened] flag_ok_off_exchange[of r] show ?thesis
    by (intro exI[of _ "off_exchange r"] exI[of _ False]) simp
next
  case Disconnect
  with emits_disconnect[of r] flag_ok_off_exchange[of r] show ?thesis
    by (intro exI[of _ "off_exchange r"] exI[of _ False]) simp
next
  case (Set_remote on)
  with emits_set_remote_any[of r on] show ?thesis by simp
next
  case Measure
  with emits_measure_op[of r pf] flag_ok_exchange[of r] show ?thesis
    by (intro exI[of _ "remote_exchange r @ measure_exchange"] exI[of _ True]) simp
qed

lemma exec_flag_ok:
  assumes "list_all flag_ok (wire s)"
  shows "list_all flag_ok (wire (snd (exec pf c s)))"
proof -
  from emits_exec[of "remote s" pf c] obtain es r' where
    e: "emits (remote s) (exec pf c) es r'" "list_all flag_ok es" by blast
  obtain out s' where x: "exec pf c s = (out, s')" by (cases "exec pf c s")
  from emitsD[OF e(1) refl x] obtain d where d: "wire s' = wire s @ d" "prefix d es" by blast
  from d(2) e(2) have "list_all flag_ok d" by (auto simp: list_all_iff dest: set_mono_prefix)
  with assms d(1) x show ?thesis by simp
qed

lemma drive_flag_ok: "list_all flag_ok (wire s) \<Longrightarrow> list_all flag_ok (wire (drive pf calls s))"
  by (induction calls arbitrary: s) (simp_all add: exec_flag_ok)

lemma connect_init_example: "snd (connect (Inr example_port) init) = example_state"
  by (simp add: connect_def init_def example_state_def bnd_def ret_def)

lemma drive_example:
  "drive decimal [Connect (Inr example_port)] init = example_state"
  "drive decimal [Connect (Inr example_port), Measure] init = example_done"
  by (simp_all add: connect_init_example example_done_def)

lemma example_wire: "wire example_done = remote_exchange False @ measure_exchange"
proof -
  have r: "remote example_state = False" "wire example_state = []"
    by (simp_all add: example_state_def)
  from emitsD[OF emits_measure_op r(1) example_run] r(2) show ?thesis by auto
qed

subsection \<open>The handle\<close>

lemma keeps_comI:
  assumes "\<And>s out s'. com s \<noteq> None \<Longrightarrow> a s = (out, s') \<Longrightarrow> com s' \<noteq> None"
  shows "keeps_com a"
  unfolding keeps_com_def using assms by blast

lemma keeps_comD: "keeps_com a \<Longrightarrow> com s \<noteq> None \<Longrightarrow> a s = (out, s') \<Longrightarrow> com s' \<noteq> None"
  unfolding keeps_com_def by blast

lemma keeps_com_bnd:
  assumes "keeps_com m" "\<And>x. keeps_com (f x)"
  shows "keeps_com (bnd m f)"
proof (rule keeps_comI)
  fix s out s'' assume c: "com s \<noteq> None" and b: "bnd m f s = (out, s'')"
  from b show "com s'' \<noteq> None"
  proof (cases rule: bnd_cases)
    case (first e)
    from keeps_comD[OF assms(1) c first(1)] show ?thesis .
  next
    case (second x s')
    from keeps_comD[OF assms(1) c second(1)] have "com s' \<noteq> None" .
    from keeps_comD[OF assms(2) this second(2)] show ?thesis .
  qed
qed

lemma keeps_com_ret: "keeps_com (ret x)"
  by (rule keeps_comI) (simp add: ret_def)

lemma keeps_com_block: "(\<And>a. a \<in> set as \<Longrightarrow> keeps_com a) \<Longrightarrow> keeps_com (block as)"
  by (induction as) (simp_all add: keeps_com_ret keeps_com_bnd)

lemma keeps_com_discard: "keeps_com m \<Longrightarrow> keeps_com (discard m)"
  by (simp add: discard_def keeps_com_bnd keeps_com_ret)

lemma keeps_com_only_results: "only_results a \<Longrightarrow> keeps_com a"
  by (rule keeps_comI) (simp add: only_resultsD)

lemma keeps_com_com_write: "keeps_com (com_write b)"
  by (rule keeps_comI) (erule com_write_cases; simp)

lemma keeps_com_com_readline: "keeps_com com_readline"
  by (rule keeps_comI) (erule com_readline_cases; simp)

lemma keeps_com_upd_remote: "keeps_com (\<lambda>s. (Return (), s\<lparr>remote := b\<rparr>))"
  by (rule keeps_comI) auto

lemma keeps_com_upd_com: "keeps_com (\<lambda>s. (Return (), s\<lparr>com := Some p\<rparr>))"
  by (rule keeps_comI) auto

lemma keeps_com_pointwise: "(\<And>s. \<exists>a. keeps_com a \<and> b s = a s) \<Longrightarrow> keeps_com b"
  unfolding keeps_com_def by metis

lemma keeps_com_set_remote: "keeps_com (set_remote on)"
proof (rule keeps_com_pointwise)
  fix s :: "'a cs1000"
  let ?on = "block [com_write ''RMT,1\<newline>'', discard com_readline,
                 (\<lambda>s. (Return (), s\<lparr>remote := True\<rparr>))] :: (unit, 'a) action"
  let ?off = "block [com_write ''RMT,0\<newline>'',
                 (\<lambda>s. (Return (), s\<lparr>remote := False\<rparr>)),
                 (\<lambda>s. (Return (), s\<lparr>com := Some Serial_unopened\<rparr>))] :: (unit, 'a) action"
  have on: "keeps_com ?on"
    by (rule keeps_com_block)
       (auto simp: keeps_com_com_write keeps_com_discard keeps_com_com_readline keeps_com_upd_remote)
  have off: "keeps_com ?off"
    by (rule keeps_com_block)
       (auto simp: keeps_com_com_write keeps_com_upd_com keeps_com_upd_remote)
  have r: "keeps_com (ret () :: (unit, 'a) action)" by (rule keeps_com_ret)
  have "set_remote on s = ?on s \<or> set_remote on s = ?off s \<or> set_remote on s = ret () s"
    by (simp add: set_remote_def)
  with on off r show "\<exists>a. keeps_com a \<and> set_remote on s = a s" by blast
qed

lemma keeps_com_maybe_off:
  "keeps_com ((\<lambda>s. if remote s then set_remote False s else ret () s) :: (unit, 'f) action)"
proof (rule keeps_com_pointwise)
  fix s :: "'f cs1000"
  show "\<exists>a. keeps_com a \<and> (if remote s then set_remote False s else ret () s) = a s"
    using keeps_com_set_remote[of False] keeps_com_ret[of "()"] by (cases "remote s") auto
qed

lemma keeps_com_ensure_remote:
  "keeps_com ((\<lambda>s. if \<not> remote s then set_remote True s else ret () s) :: (unit, 'f) action)"
proof (rule keeps_com_pointwise)
  fix s :: "'f cs1000"
  show "\<exists>a. keeps_com a \<and> (if \<not> remote s then set_remote True s else ret () s) = a s"
    using keeps_com_set_remote[of True] keeps_com_ret[of "()"] by (cases "remote s") auto
qed

lemma keeps_com_open:
  "keeps_com (\<lambda>s. case opened of Inl e \<Rightarrow> (Raise e, s) | Inr p \<Rightarrow> (Return (), s\<lparr>com := Some p\<rparr>))"
  by (rule keeps_comI) (auto split: sum.splits)

lemma keeps_com_connect: "keeps_com (connect opened)"
  unfolding connect_def
  by (rule keeps_com_block) (auto simp: keeps_com_maybe_off keeps_com_open)

lemma keeps_com_spectral_loop: "keeps_com (spectral_loop pf n acc)"
  by (induction n arbitrary: acc)
     (simp_all add: keeps_com_ret keeps_com_bnd keeps_com_com_write keeps_com_com_readline
        keeps_com_only_results only_results_append_floats)

lemma keeps_com_measure_op: "keeps_com (measure_op pf)"
  unfolding measure_op_def
  by (rule keeps_com_block)
     (auto simp: keeps_com_ensure_remote keeps_com_com_write keeps_com_discard keeps_com_com_readline
        keeps_com_bnd keeps_com_spectral_loop keeps_com_only_results only_results_store_block
        only_results_setitem)

lemma set_remote_off_Return:
  assumes "remote s" "set_remote False s = (Return (), s')"
  shows "com s' = Some Serial_unopened"
proof -
  from assms obtain s1 s2 where "s' = s2\<lparr>com := Some Serial_unopened\<rparr>"
    by (auto simp: set_remote_def block_Cons_Return_iff block_Nil_Return_iff simp del: block.simps)
  then show ?thesis by simp
qed

lemma disconnect_Return: "disconnect s = (Return (), s') \<Longrightarrow> com s' = None"
  by (auto simp: disconnect_def block_Cons_Return_iff block_Nil_Return_iff simp del: block.simps)

subsection \<open>The result set after a failure, and its keys\<close>


lemma dom_fold_upd:
  "dom (fold (\<lambda>(k, v) m. m(k \<mapsto> v)) (zip ks vs) m) \<subseteq> dom m \<union> set ks"
proof (induction ks arbitrary: vs m)
  case Nil
  show ?case by simp
next
  case (Cons a ks)
  show ?case
  proof (cases vs)
    case Nil
    then show ?thesis by auto
  next
    case (Cons v vs')
    with Cons.IH[of vs' "m(a \<mapsto> v)"] show ?thesis by auto
  qed
qed

lemma scalar_keys_list:
  "scalar_keys = [''Le2'', ''Lv2'', ''X2'', ''Y2'', ''Z2'', ''x2'', ''y2'', ''u2'', ''v2'', ''T2'', ''Duv2'',
     ''Le10'', ''Lv10'', ''X10'', ''Y10'', ''Z10'', ''x10'', ''y10'', ''u10'', ''v10'', ''T10'', ''Duv10'']"
  by (simp add: scalar_keys_def block_keys_def)

lemma scalar_keys_facts:
  "length scalar_keys = 22" "distinct scalar_keys" "''spectrum'' \<notin> set scalar_keys"
  by (simp_all add: scalar_keys_list)




lemma assigns_open:
  "assigns (\<lambda>s. case opened of Inl e \<Rightarrow> (Raise e, s) | Inr p \<Rightarrow> (Return (), s\<lparr>com := Some p\<rparr>)) [] []"
  by (rule assigns_none) (auto split: sum.splits)

lemma assigns_maybe_off:
  "assigns ((\<lambda>s. if remote s then set_remote False s else ret () s) :: (unit, 'f) action) [] []"
proof (rule assigns_pointwise)
  fix s :: "'f cs1000"
  show "\<exists>a. assigns a [] [] \<and> (if remote s then set_remote False s else ret () s) = a s"
    using assigns_set_remote[of False] assigns_ret[of "()"] by (cases "remote s") auto
qed simp

lemma assigns_connect: "assigns (connect opened) [] []"
proof -
  have "assigns (connect opened) ([] @ []) ([] @ [])"
    unfolding connect_def
    by (rule assigns_block_single assigns_block_Cons assigns_maybe_off assigns_open)+
  then show ?thesis by simp
qed

lemma assigns_disconnect: "assigns disconnect [] []"
proof -
  have "assigns disconnect ([] @ []) ([] @ [])"
    unfolding disconnect_def
    by (rule assigns_block_single assigns_block_Cons assigns_maybe_off assigns_upd_com)+
  then show ?thesis by simp
qed

lemma assigns_dom:
  assumes "assigns a ks kf" "a s = (out, s')"
  shows "dom (results s') \<subseteq> dom (results s) \<union> set ks"
proof -
  from assignsD[OF assms] obtain vs where
    "results s' = fold (\<lambda>(k, v) m. m(k \<mapsto> v)) (zip ks vs) (results s)" by blast
  then show ?thesis by (simp add: dom_fold_upd)
qed

lemma exec_dom:
  "dom (results (snd (exec pf c s))) \<subseteq> dom (results s) \<union> set (scalar_keys @ [''spectrum''])"
proof -
  obtain out s' where x: "exec pf c s = (out, s')" by (cases "exec pf c s")
  have "dom (results s') \<subseteq> dom (results s) \<union> set (scalar_keys @ [''spectrum''])"
  proof (cases c)
    case (Connect opened)
    with x assigns_dom[OF assigns_connect, of opened s out s'] show ?thesis by auto
  next
    case Disconnect
    with x assigns_dom[OF assigns_disconnect, of s out s'] show ?thesis by auto
  next
    case (Set_remote on)
    with x assigns_dom[OF assigns_set_remote, of on s out s'] show ?thesis by auto
  next
    case Measure
    with x assigns_dom[OF assigns_measure_op, of pf s out s'] show ?thesis by auto
  qed
  with x show ?thesis by simp
qed

lemma drive_dom:
  "dom (results s) \<subseteq> set (scalar_keys @ [''spectrum'']) \<Longrightarrow>
   dom (results (drive pf calls s)) \<subseteq> set (scalar_keys @ [''spectrum''])"
proof (induction calls arbitrary: s)
  case Nil
  then show ?case by simp
next
  case (Cons c calls)
  from exec_dom[of pf c s] Cons.prems
  have "dom (results (snd (exec pf c s))) \<subseteq> set (scalar_keys @ [''spectrum''])" by blast
  from Cons.IH[OF this] show ?case by simp
qed

lemma measure_op_dom:
  assumes "measure_op pf s = (Return (), s')"
  shows "dom (results s') = dom (results s) \<union> set (scalar_keys @ [''spectrum''])"
proof -
  from assms obtain d2 d10 sp where
    "results s' = (results s ++ block_map pf ''2'' (split_comma d2)
        ++ block_map pf ''10'' (split_comma d10))(''spectrum'' \<mapsto> Array (with_wavelengths sp))"
    by (rule measure_op_ReturnE)
  then show ?thesis by (auto simp: dom_block_map scalar_keys_def)
qed

section \<open>The claims of the specification\<close>

text \<open>
  C3. Whatever the starting state, the writes and reads of \<open>measure()\<close> follow one fixed
  sequence: \<open>RMT,1\<close> with one reply when remote control is not yet enabled, then
  \<open>MES,1\<close> (two replies), \<open>BDR,1,0,0\<close> (one), \<open>&\<close> (one), \<open>BDR,1,1,0\<close> (one), \<open>&\<close> (one),
  \<open>BDR,0,0,0\<close> (one), then fifteen times \<open>&\<close> with one reply each. A call that returns
  has done exactly this sequence; a call that is cut short by an exception or a blocked
  read has done an initial part of it, and nothing else.
\<close>

theorem measure_command_order:
  assumes "measure_op pf s = (out, s')"
  shows "\<exists>done. wire s' = wire s @ done
     \<and> prefix done (remote_exchange (remote s) @ measure_exchange)
     \<and> (out = Return () \<longrightarrow> done = remote_exchange (remote s) @ measure_exchange)"
proof -
  from emitsD[OF emits_measure_op refl assms] obtain d where
    d: "wire s' = wire s @ d" "prefix d (remote_exchange (remote s) @ measure_exchange)"
      "\<And>x. out = Return x \<Longrightarrow> d = remote_exchange (remote s) @ measure_exchange \<and> remote s' = True"
    by blast
  show ?thesis
    by (rule exI[of _ d]) (use d in simp)
qed

theorem measure_command_order_witness:
  "wire example_done =
     [Sent False ''RMT,1\<newline>'', Received,
      Sent True ''MES,1\<newline>'', Received, Received,
      Sent True ''BDR,1,0,0\<newline>'', Received,
      Sent True ''&\<newline>'', Received,
      Sent True ''BDR,1,1,0\<newline>'', Received,
      Sent True ''&\<newline>'', Received,
      Sent True ''BDR,0,0,0\<newline>'', Received]
     @ concat (replicate 15 [Sent True ''&\<newline>'', Received])"
  using measure_command_order[OF example_run]
  by (simp add: example_state_def remote_exchange_def measure_exchange_def)

text \<open>
  C6. \<open>set_remote\<close> does nothing when the requested state is the current one: no write, no
  read, the object unchanged (so disabling when disabled writes no command). Calling
  \<open>set_remote(True)\<close> twice in a row from the disabled state writes \<open>RMT,1\<close> at most once
  and, when the calls return, exactly once; after a first call that returned, the second
  leaves the object as it is.
\<close>

theorem set_remote_idempotent:
  "(remote s = on \<longrightarrow> set_remote on s = (Return (), s))
   \<and> (\<not> remote s \<longrightarrow> set_remote True s = (Return (), s1) \<longrightarrow> set_remote True s1 = (Return (), s1))
   \<and> (\<not> remote s \<longrightarrow> block [set_remote True, set_remote True] s = (out, s') \<longrightarrow>
        (\<exists>done. wire s' = wire s @ done
           \<and> prefix done [Sent False ''RMT,1\<newline>'', Received]
           \<and> (out = Return () \<longrightarrow> done = [Sent False ''RMT,1\<newline>'', Received])))"
proof (intro conjI impI)
  assume "remote s = on"
  then show "set_remote on s = (Return (), s)" by (rule set_remote_same)
next
  assume a: "\<not> remote s" "set_remote True s = (Return (), s1)"
  then have "remote s = False" by simp
  from emitsD[OF emits_set_remote_on this a(2)] have "remote s1 = True" by blast
  then show "set_remote True s1 = (Return (), s1)" by (rule set_remote_same)
next
  assume a: "\<not> remote s" "block [set_remote True, set_remote True] s = (out, s')"
  then have r: "remote s = False" by simp
  have "emits False (block [set_remote True, set_remote True])
          ([Sent False ''RMT,1\<newline>'', Received] @ [] @ []) True"
    by (rule emits_block_Cons emits_set_remote_on emits_set_remote_same emits_block_Nil)+
  then have "emits False (block [set_remote True, set_remote True])
          [Sent False ''RMT,1\<newline>'', Received] True" by simp
  from emitsD[OF this r a(2)] obtain d where
    d: "wire s' = wire s @ d" "prefix d [Sent False ''RMT,1\<newline>'', Received]"
      "\<And>x. out = Return x \<Longrightarrow> d = [Sent False ''RMT,1\<newline>'', Received] \<and> remote s' = True"
    by blast
  show "\<exists>done. wire s' = wire s @ done
           \<and> prefix done [Sent False ''RMT,1\<newline>'', Received]
           \<and> (out = Return () \<longrightarrow> done = [Sent False ''RMT,1\<newline>'', Received])"
    by (rule exI[of _ d]) (use d in simp)
qed

theorem set_remote_idempotent_witness:
  "set_remote False example_state = (Return (), example_state)
   \<and> fst (block [set_remote True, set_remote True] example_state) = Return ()
   \<and> wire (snd (block [set_remote True, set_remote True] example_state))
       = [Sent False ''RMT,1\<newline>'', Received]"
proof -
  let ?s = "snd (set_remote True example_state)"
  let ?t = "block [set_remote True, set_remote True] example_state"
  have r: "\<not> remote example_state" "remote example_state = False" "wire example_state = []"
    by (simp_all add: example_state_def)
  have "fst (set_remote True example_state) = Return ()" by code_simp
  then have 1: "set_remote True example_state = (Return (), ?s)" by (simp add: prod_eq_iff)
  note inst = set_remote_idempotent[of example_state False ?s "fst ?t" "snd ?t"]
  from inst r(2) have a: "set_remote False example_state = (Return (), example_state)" by blast
  from inst r(1) 1 have 2: "set_remote True ?s = (Return (), ?s)" by blast
  have "?t = (Return (), ?s)" by (rule block_two_Return[of "set_remote True" example_state ?s "set_remote True" ?s, OF 1 2])
  then have 3: "fst ?t = Return ()" by simp
  from inst r(1) 3 obtain d where "wire (snd ?t) = wire example_state @ d"
    "d = [Sent False ''RMT,1\<newline>'', Received]" by auto
  with r(3) a 3 show ?thesis by simp
qed

text \<open>
  C2. The data line read after \<open>BDR,1,0,0\<close> (and in the same way the one after
  \<open>BDR,1,1,0\<close>) is cut at its commas; its first nine fields are stored as floats under
  \<open>Le\<close>, \<open>Lv\<close>, \<open>X\<close>, \<open>Y\<close>, \<open>Z\<close>, \<open>x\<close>, \<open>y\<close>, \<open>u\<close>, \<open>v\<close> with the ending \<open>2\<close> (\<open>10\<close>), the
  tenth field is stored as it is under \<open>T\<close>, and \<open>Duv\<close> is the text of the field at index 8,
  the index of \<open>v\<close>. The data line of the 2-degree block is the reply at position 3 of the
  port's input when remote control is already on, and at position 4 otherwise; the one of
  the 10-degree block is two replies later.
\<close>

theorem measure_data_fields:
  assumes "measure_op pf s = (Return (), s')" and "com s = Some p"
    and "inbox p ! (3 + (if remote s then 0 else 1)) = Line l2"
    and "inbox p ! (5 + (if remote s then 0 else 1)) = Line l10"
  shows "spec_block pf ''2'' (split_comma l2) (results s')
     \<and> spec_block pf ''10'' (split_comma l10) (results s')"
proof -
  note d = measure_op_data_lines[OF assms]
  from d(3) obtain v where
    r: "results s' = (results s ++ block_map pf ''2'' (split_comma l2)
        ++ block_map pf ''10'' (split_comma l10))(''spectrum'' \<mapsto> v)" by blast
  have "spec_block pf ''2'' (split_comma l2) (results s')"
    by (rule spec_block_of_block_map[OF d(1)]) (simp only: r lookup_block2)
  moreover have "spec_block pf ''10'' (split_comma l10) (results s')"
    by (rule spec_block_of_block_map[OF d(2)]) (simp only: r lookup_block10)
  ultimately show ?thesis by simp
qed

theorem measure_data_fields_witness:
  "results example_done ''Le2'' = Some (Float 12.3)
   \<and> results example_done ''Y2'' = Some (Float 2.2)
   \<and> results example_done ''T2'' = Some (Str ''6500'')
   \<and> results example_done ''Duv2'' = Some (Str ''0.2'')
   \<and> results example_done ''T10'' = Some (Str ''6400\<newline>'')"
proof -
  from measure_data_fields[OF example_run example_lines]
  have b: "spec_block decimal ''2''
        [''12.3'', ''45.6'', ''1.1'', ''2.2'', ''3.3'', ''0.33'', ''0.34'', ''0.1'', ''0.2'', ''6500'']
        (results example_done)"
    and c: "spec_block decimal ''10''
        [''12.4'', ''45.7'', ''1.2'', ''2.3'', ''3.4'', ''0.31'', ''0.32'', ''0.3'', ''0.4'', ''6400\<newline>'']
        (results example_done)"
    by (simp_all add: example_split2 example_split10)
  from b have q: "\<And>i. i < 9 \<Longrightarrow> results example_done (float_names ! i @ ''2'')
      = map_option Float (decimal ([''12.3'', ''45.6'', ''1.1'', ''2.2'', ''3.3'', ''0.33'', ''0.34'',
          ''0.1'', ''0.2'', ''6500''] ! i))"
    by (simp add: spec_block_def)
  from q[of 0] q[of 3] have f: "results example_done ''Le2'' = Some (Float 12.3)"
    "results example_done ''Y2'' = Some (Float 2.2)"
    by (simp_all add: float_names_def example_decimals)
  from b have t: "results example_done ''T2'' = Some (Str ''6500'')"
    "results example_done ''Duv2'' = Some (Str ''0.2'')"
    by (simp_all add: spec_block_def)
  from c have "results example_done ''T10'' = Some (Str ''6400\<newline>'')"
    by (simp add: spec_block_def)
  with f t show ?thesis by (intro conjI)
qed

text \<open>
  C4. When \<open>measure()\<close> returns and each of the fifteen spectral reply lines has ten
  comma-separated fields, the value stored under \<open>spectrum\<close> is a sequence of exactly 150
  pairs of wavelength and intensity; the wavelengths are 380, 381, ..., 529 in order, and
  the intensity at position \<open>i\<close> is the float of the \<open>i\<close>-th field (stripped of surrounding
  whitespace) of the fifteen lines taken one after the other. The spectral lines are the
  fifteen replies from position 7 of the port's input when remote control is already
  on, from position 8 otherwise.
\<close>

theorem measure_spectrum:
  assumes "measure_op pf s = (Return (), s')" and "com s = Some p"
    and "take 15 (drop (7 + (if remote s then 0 else 1)) (inbox p)) = map Line sls"
    and "\<forall>l\<in>set sls. length (split_comma l) = 10"
  shows "\<exists>sp. results s' ''spectrum'' = Some (Array (zip [380..<530] sp))
     \<and> length sp = 150
     \<and> map Some sp = map (\<lambda>a. pf (strip a)) (concat (map split_comma sls))"
proof -
  from measure_op_spectral_lines[OF assms(1-3)] obtain sp where
    sp: "map Some sp = map (\<lambda>a. pf (strip a)) (concat (map split_comma sls))"
      "results s' ''spectrum'' = Some (Array (with_wavelengths sp))" "length sls = 15" by blast
  from length_concat_const[OF assms(4)] sp(3) have "length (concat (map split_comma sls)) = 150" by simp
  with arg_cong[where f=length, OF sp(1)] have len: "length sp = 150" by simp
  with sp(1) sp(2) show ?thesis by (intro exI[of _ sp]) (simp add: with_wavelengths_upt)
qed

theorem measure_spectrum_witness:
  "\<exists>sp. results example_done ''spectrum'' = Some (Array (zip [380..<530] sp)) \<and> length sp = 150"
proof -
  have "\<forall>l\<in>set (replicate 15 ''1,2,3,4,5,6,7,8,9,10\<newline>''). length (split_comma l) = 10"
    by (simp add: example_line_length)
  from measure_spectrum[OF example_run example_lines(1) example_spectral_lines this]
  show ?thesis by blast
qed



text \<open>
  C7. However the methods are called one after another from a fresh object (exceptions
  caught, calls repeated), every write of a measurement command (\<open>MES,1\<close>, a \<open>BDR\<close>
  command or \<open>&\<close>) happens while \<open>self.remote\<close> is true; and when \<open>disconnect()\<close>
  returns, \<open>self.remote\<close> is false.
\<close>

theorem remote_before_measurement:
  "(\<forall>r b. Sent r b \<in> set (wire (drive pf calls init)) \<longrightarrow> measurement_command b \<longrightarrow> r)
   \<and> (disconnect s = (Return (), s') \<longrightarrow> \<not> remote s')"
proof (intro conjI allI impI)
  fix r b
  assume a: "Sent r b \<in> set (wire (drive pf calls init))" "measurement_command b"
  have "list_all flag_ok (wire (init :: 'a cs1000))" by (simp add: init_def)
  then have "list_all flag_ok (wire (drive pf calls init))" by (rule drive_flag_ok)
  with a(1) have "flag_ok (Sent r b)" by (simp add: list_all_iff)
  with a(2) show r by (simp add: flag_ok_def)
next
  assume "disconnect s = (Return (), s')"
  from emitsD[OF emits_disconnect refl this] have "remote s' = False" by blast
  then show "\<not> remote s'" by simp
qed

theorem remote_before_measurement_witness:
  "Sent True ''MES,1\<newline>'' \<in> set (wire (drive decimal [Connect (Inr example_port), Measure] init))
   \<and> measurement_command ''MES,1\<newline>''
   \<and> fst (disconnect (example_state\<lparr>remote := True\<rparr>)) = Return ()
   \<and> \<not> remote (snd (disconnect (example_state\<lparr>remote := True\<rparr>)))"
proof -
  let ?s = "example_state\<lparr>remote := True\<rparr>"
  have 1: "Sent True ''MES,1\<newline>'' \<in> set (wire (drive decimal [Connect (Inr example_port), Measure] init))"
    unfolding drive_example(2) by (simp add: example_wire measure_exchange_def)
  have 2: "measurement_command ''MES,1\<newline>''" by (simp add: measurement_command_def)
  have 3: "fst (disconnect ?s) = Return ()" by code_simp
  then have "disconnect ?s = (Return (), snd (disconnect ?s))" by (simp add: prod_eq_iff)
  with remote_before_measurement[of decimal "[Connect (Inr example_port), Measure]" ?s "snd (disconnect ?s)"]
  have "\<not> remote (snd (disconnect ?s))" by blast
  with 1 2 3 show ?thesis by (intro conjI)
qed

text \<open>
  C9. After \<open>set_remote(False)\<close> on a connected object, \<open>get_connected()\<close> is still true (with
  remote control on and the write accepted, the handle is then a port that is not open).
  \<open>set_remote\<close>, \<open>connect\<close> and \<open>measure\<close> never make a connected object report that it is
  not connected; a returning \<open>disconnect()\<close> does.
\<close>

theorem connected_until_disconnect:
  "(get_connected s \<longrightarrow> set_remote False s = (out, s') \<longrightarrow>
      get_connected s' \<and> (remote s \<longrightarrow> out = Return () \<longrightarrow> com s' = Some Serial_unopened))
   \<and> (get_connected s \<longrightarrow>
        (set_remote on s = (out, s') \<or> connect opened s = (out, s') \<or> measure_op pf s = (out, s')) \<longrightarrow>
        get_connected s')
   \<and> (disconnect s = (Return (), s') \<longrightarrow> \<not> get_connected s')"
proof (intro conjI impI)
  assume a: "get_connected s" "set_remote False s = (out, s')"
  then show "get_connected s'"
    using keeps_comD[OF keeps_com_set_remote] by (simp add: get_connected_def)
  assume "remote s" "out = Return ()"
  with a(2) show "com s' = Some Serial_unopened" by (simp add: set_remote_off_Return)
next
  assume a: "get_connected s"
    "set_remote on s = (out, s') \<or> connect opened s = (out, s') \<or> measure_op pf s = (out, s')"
  then show "get_connected s'"
    using keeps_comD[OF keeps_com_set_remote] keeps_comD[OF keeps_com_connect]
      keeps_comD[OF keeps_com_measure_op]
    unfolding get_connected_def by blast
next
  assume "disconnect s = (Return (), s')"
  then show "\<not> get_connected s'" by (simp add: disconnect_Return get_connected_def)
qed

theorem connected_until_disconnect_witness:
  "get_connected (example_state\<lparr>remote := True\<rparr>)
   \<and> fst (set_remote False (example_state\<lparr>remote := True\<rparr>)) = Return ()
   \<and> get_connected (snd (set_remote False (example_state\<lparr>remote := True\<rparr>)))
   \<and> com (snd (set_remote False (example_state\<lparr>remote := True\<rparr>))) = Some Serial_unopened
   \<and> fst (disconnect (example_state\<lparr>remote := True\<rparr>)) = Return ()
   \<and> \<not> get_connected (snd (disconnect (example_state\<lparr>remote := True\<rparr>)))"
proof -
  let ?s = "example_state\<lparr>remote := True\<rparr>"
  have c: "get_connected ?s" "remote ?s" by (simp_all add: get_connected_def example_state_def)
  have 1: "fst (set_remote False ?s) = Return ()" by code_simp
  then have 2: "set_remote False ?s = (Return (), snd (set_remote False ?s))"
    by (simp add: prod_eq_iff)
  have 3: "fst (disconnect ?s) = Return ()" by code_simp
  then have 4: "disconnect ?s = (Return (), snd (disconnect ?s))" by (simp add: prod_eq_iff)
  from connected_until_disconnect[of ?s "Return ()" "snd (set_remote False ?s)"] c 2
  have 5: "get_connected (snd (set_remote False ?s))"
    "com (snd (set_remote False ?s)) = Some Serial_unopened" by blast+
  from connected_until_disconnect[of ?s "Return ()" "snd (disconnect ?s)"] 4
  have 6: "\<not> get_connected (snd (disconnect ?s))" by blast
  from c(1) 1 5 3 6 show ?thesis by (intro conjI)
qed

text \<open>
  C8, as the code has it. When the write of \<open>RMT,0\<close> inside \<open>set_remote(False)\<close> fails during
  \<open>disconnect()\<close>, the exception reaches the caller and \<open>disconnect()\<close> stops there: the
  handle is not cleared, so the object still reports that it is connected, and
  \<open>self.remote\<close> is still true.
\<close>

theorem disconnect_write_failure:
  assumes "remote s" and "get_connected s" and "com_write ''RMT,0\<newline>'' s = (Raise e, s1)"
  shows "disconnect s = (Raise e, s1) \<and> get_connected s1 \<and> remote s1"
proof -
  from assms(1,3) have "disconnect s = (Raise e, s1)"
    by (simp add: disconnect_def set_remote_def bnd_def)
  moreover from assms(3) have "remote s1 = remote s" "com s = None \<longleftrightarrow> com s1 = None"
    by (auto elim: com_write_cases)
  ultimately show ?thesis using assms(1,2) by (simp add: get_connected_def)
qed

theorem disconnect_write_failure_witness:
  "remote unplugged_state \<and> get_connected unplugged_state
   \<and> fst (com_write ''RMT,0\<newline>'' unplugged_state) = Raise SerialException
   \<and> fst (disconnect unplugged_state) = Raise SerialException
   \<and> get_connected (snd (disconnect unplugged_state))
   \<and> remote (snd (disconnect unplugged_state))"
proof -
  let ?s1 = "snd (com_write ''RMT,0\<newline>'' unplugged_state)"
  have 1: "remote unplugged_state" "get_connected unplugged_state" by code_simp+
  have 2: "fst (com_write ''RMT,0\<newline>'' unplugged_state) = Raise SerialException" by code_simp
  then have "com_write ''RMT,0\<newline>'' unplugged_state = (Raise SerialException, ?s1)"
    by (simp add: prod_eq_iff)
  from disconnect_write_failure[OF 1 this]
  have "disconnect unplugged_state = (Raise SerialException, ?s1)" "get_connected ?s1" "remote ?s1"
    by simp_all
  with 1 2 show ?thesis by simp
qed

text \<open>
  C8 as stated fails: after connecting to a port whose second write fails and enabling
  remote control, \<open>disconnect()\<close> raises and the object still reports that it is connected.
\<close>

theorem disconnect_write_failure_counterexample:
  "fst (disconnect unplugged_state) = Raise SerialException
   \<and> get_connected (snd (disconnect unplugged_state))"
  by code_simp




text \<open>
  C5, as the code has it. On an object used only through its methods, a returning
  \<open>measure()\<close> leaves a result set whose keys are exactly the 22 scalar fields (\<open>Le\<close>, \<open>Lv\<close>,
  \<open>X\<close>, \<open>Y\<close>, \<open>Z\<close>, \<open>x\<close>, \<open>y\<close>, \<open>u\<close>, \<open>v\<close>, \<open>T\<close>, \<open>Duv\<close>, each with the endings \<open>2\<close> and \<open>10\<close>) and
  \<open>spectrum\<close>: 23 keys, and no other.
\<close>

theorem measure_result_keys:
  assumes "measure_op pf (drive pf calls init) = (Return (), s')"
  shows "dom (results s') = set scalar_keys \<union> {''spectrum''}
     \<and> scalar_keys = [''Le2'', ''Lv2'', ''X2'', ''Y2'', ''Z2'', ''x2'', ''y2'', ''u2'', ''v2'', ''T2'', ''Duv2'',
          ''Le10'', ''Lv10'', ''X10'', ''Y10'', ''Z10'', ''x10'', ''y10'', ''u10'', ''v10'', ''T10'', ''Duv10'']
     \<and> card (dom (results s')) = 23"
proof -
  have "dom (results (init :: 'a cs1000)) \<subseteq> set (scalar_keys @ [''spectrum''])"
    by (simp add: init_def)
  from drive_dom[OF this] measure_op_dom[OF assms]
  have d: "dom (results s') = set (scalar_keys @ [''spectrum''])" by blast
  have "distinct (scalar_keys @ [''spectrum''])" by (simp add: scalar_keys_facts)
  then have "card (set (scalar_keys @ [''spectrum''])) = length (scalar_keys @ [''spectrum''])"
    by (rule distinct_card)
  with d have "card (dom (results s')) = 23" by (simp add: scalar_keys_facts)
  with d scalar_keys_list show ?thesis by simp
qed

theorem measure_result_keys_witness:
  "dom (results example_done) = set scalar_keys \<union> {''spectrum''}
   \<and> card (dom (results example_done)) = 23"
proof -
  have "measure_op decimal (drive decimal [Connect (Inr example_port)] init) = (Return (), example_done)"
    unfolding drive_example(1) by (rule example_run)
  from measure_result_keys[OF this]
  have "dom (results example_done) = set scalar_keys \<union> {''spectrum''}"
    "card (dom (results example_done)) = 23" by blast+
  then show ?thesis by (intro conjI)
qed

text \<open>
  C5 as stated fails: after the example run the result set has 22 keys besides
  \<open>spectrum\<close>, not 21.
\<close>

theorem measure_result_keys_counterexample:
  "card (dom (results example_done) - {''spectrum''}) = 22
   \<and> card (dom (results example_done) - {''spectrum''}) \<noteq> 21"
proof -
  have "dom (results example_state) = {}" by (simp add: example_state_def)
  with measure_op_dom[OF example_run]
  have "dom (results example_done) - {''spectrum''} = set scalar_keys"
    using scalar_keys_facts(3) by auto
  moreover have "card (set scalar_keys) = 22"
    using distinct_card[OF scalar_keys_facts(2)] by (simp add: scalar_keys_facts)
  ultimately show ?thesis by simp
qed

end
